theory Spec2Isabelle
  imports Complex_Main
begin

section \<open>PanelExtensionAdapter: a shallow embedding\<close>

text \<open>
  The development follows
  \<^verbatim>\<open>packages/studio-base/src/components/PanelExtensionAdapter/PanelExtensionAdapter.tsx\<close>.
  The React component is a state machine: its \<^verbatim>\<open>useState\<close> cells and \<^verbatim>\<open>useRef\<close> cells
  are fields of one record, every effect and every method of the extension context is a
  function from that record to its successor, and an exception is the left summand of a
  sum type. State setters take effect where they are called; the order of two setters in
  one effect is the order of the source.
\<close>

subsection \<open>JavaScript values and errors\<close>

datatype json =
    JUndefined
  | JNull
  | JBool bool
  | JNum real
  | JStr string
  | JArr "json list"
  | JObj "(string \<times> json) list"

text \<open>\<^verbatim>\<open>isEqual(config, {})\<close> of lodash: deep equality with the empty plain object.\<close>

definition isEqualEmptyObject :: "json \<Rightarrow> bool" where
  "isEqualEmptyObject config = (config = JObj [])"

datatype js_error = Error string | TypeError string

text \<open>
  What a \<^verbatim>\<open>throw\<close> statement can throw and a \<^verbatim>\<open>catch\<close> clause can catch: an error
  object or any other value. An error object is truthy; the other values are truthy as
  JavaScript has them (there is no \<^verbatim>\<open>NaN\<close> among the reals).
\<close>

datatype js_value = Obj_Error js_error | Plain json

fun truthy :: "js_value \<Rightarrow> bool" where
  "truthy (Obj_Error e) = True"
| "truthy (Plain JUndefined) = False"
| "truthy (Plain JNull) = False"
| "truthy (Plain (JBool b)) = b"
| "truthy (Plain (JNum r)) = (r \<noteq> 0)"
| "truthy (Plain (JStr s)) = (s \<noteq> [])"
| "truthy (Plain (JArr xs)) = True"
| "truthy (Plain (JObj kvs)) = True"

text \<open>
  Modelled from the spec: \<^verbatim>\<open>assertNever\<close> (util/assertNever) is not among the sources;
  an unsupported value is a programming error signalled immediately, so the call throws
  an \<^verbatim>\<open>Error\<close> carrying the message it is given.
\<close>

definition assertNever :: "string \<Rightarrow> string \<Rightarrow> js_error + 'a" where
  "assertNever val msg = Inl (Error msg)"

text \<open>
  Panel identifiers come from \<^verbatim>\<open>uuid()\<close>. A version 4 uuid is drawn at random and
  collisions are excluded here: an identifier is the number of the draw.
\<close>

type_synonym panel_id = nat

text \<open>A JavaScript \<^verbatim>\<open>Map\<close> keeps insertion order; \<^verbatim>\<open>set\<close> on a present key
  replaces the value in place, \<^verbatim>\<open>delete\<close> removes the entry.\<close>

fun mapSet :: "'k \<Rightarrow> 'v \<Rightarrow> ('k \<times> 'v) list \<Rightarrow> ('k \<times> 'v) list" where
  "mapSet k v [] = [(k, v)]"
| "mapSet k v (e # es) = (if fst e = k then (k, v) # es else e # mapSet k v es)"

fun mapDelete :: "'k \<Rightarrow> ('k \<times> 'v) list \<Rightarrow> ('k \<times> 'v) list" where
  "mapDelete k [] = []"
| "mapDelete k (e # es) = (if fst e = k then es else e # mapDelete k es)"

definition mapValues :: "('k \<times> 'v) list \<Rightarrow> 'v list" where
  "mapValues m = map snd m"

subsection \<open>Player types\<close>

text \<open>
  Modelled from the spec: \<^verbatim>\<open>SubscribePayload\<close>, \<^verbatim>\<open>AdvertiseOptions\<close> and
  \<^verbatim>\<open>PlayerCapabilities\<close> (players/types) are not among the sources. A subscription
  payload is a topic with full or partial preloading, an advertisement is a topic with
  a datatype and options, and advertising is gated on one capability flag. The fields
  are those the adapter writes.
\<close>

datatype preload_type = Full | Partial

record subscribe_payload =
  topic :: string
  preloadType :: preload_type

text \<open>An entry of \<^verbatim>\<open>subscribe\<close>: a topic string, or a \<^verbatim>\<open>Subscription\<close> object
  whose \<^verbatim>\<open>preload\<close> field is optional.\<close>

datatype subscription_item =
    TopicString string
  | Subscription string "bool option"

record advertise_options =
  advTopic :: string
  advDatatype :: string
  advOptions :: json

definition PlayerCapabilities_advertise :: string where
  "PlayerCapabilities_advertise = ''advertise''"

record time =
  sec :: int
  nsec :: int

text \<open>\<^verbatim>\<open>toSec\<close> of the rostime package, over the reals in place of doubles.\<close>

definition toSec :: "time \<Rightarrow> real" where
  "toSec t = real_of_int (sec t) + real_of_int (nsec t) * (1 / 1000000000)"

subsection \<open>The hosted extension\<close>

type_synonym render_state = json

text \<open>
  What one synchronous call of the extension's render function does with its two
  arguments: it calls the completion callback \<open>doneCalls\<close> times before it returns, and
  it returns normally or throws a value of its choice. A later call of the completion
  callback is an event of its own.
\<close>

record render_outcome =
  doneCalls :: nat
  thrown :: "js_value option"

type_synonym render_fn = "render_state \<Rightarrow> render_outcome"

text \<open>
  The closure created for one call of the render function: the variable
  \<^verbatim>\<open>doneCalled\<close>, the \<^verbatim>\<open>resumeFrame\<close> token and the \<^verbatim>\<open>panelId\<close> it captured.
\<close>

record invocation =
  renderStateArg :: render_state
  doneCalled :: bool
  resumeToken :: nat
  closurePanelId :: panel_id

subsection \<open>The render-state builder\<close>

datatype builder_input =
  BuilderInput
    (* watchedFields *) "string set"
    (* globalVariables *) json
    (* hoverValue *) json
    (* playerState *) json
    (* colorScheme *) string
    (* appSettings *) json
    (* subscribedTopics *) "string list"
    (* currentFrame *) json

text \<open>
  \<^verbatim>\<open>initRenderStateBuilder\<close> (./renderState) is not among the sources. It returns a
  closure with a memory of its own; the closure is taken as it comes: the variables it
  captured and its code, which maps the captured variables and the inputs to an
  optional render state and the captured variables after the call. Every theorem below
  holds for every such builder.
\<close>

record builder =
  captured :: json
  code :: "json \<Rightarrow> builder_input \<Rightarrow> render_state option \<times> json"

definition callBuilder :: "builder \<Rightarrow> builder_input \<Rightarrow> render_state option \<times> builder" where
  "callBuilder b i = (case code b (captured b) i of (r, c) \<Rightarrow> (r, b\<lparr>captured := c\<rparr>))"

text \<open>The values the hooks hand to the render-cycle effect from outside the adapter.\<close>

record frame =
  globalVariables :: json
  hoverValue :: json
  playerState :: json
  colorScheme :: string
  appSettings :: json
  currentFrame :: json

subsection \<open>Collaborators\<close>

record pause_token =
  pausedFor :: panel_id
  resumed :: nat

record hover_value =
  hvType :: string
  componentId :: string
  hvValue :: real

record open_sibling =
  panelType :: string
  updateIfExists :: bool
  siblingConfigCreator :: "json \<Rightarrow> json"

datatype log_entry =
    Warn_DoneTwice panel_id
  | Info_InitPanel panel_id

subsection \<open>The state\<close>

record world =
  \<comment> \<open>cells of the component\<close>
  initialState :: json
  panelId :: panel_id
  error :: js_value
  watchedFields :: "string set"
  subscribedTopics :: "string list"
  renderFn :: "render_fn option"
  slowRender :: bool
  advertisementsRef :: "(string \<times> advertise_options) list"
  buildRenderState :: builder
  renderingRef :: bool
  panelContainerRef :: bool
  \<comment> \<open>closures handed to the extension, in the order of their creation\<close>
  invocations :: "invocation list"
  mountedPanelId :: "panel_id option"
  initPanelCalls :: nat
  \<comment> \<open>message pipeline\<close>
  subscriptionsById :: "panel_id \<Rightarrow> subscribe_payload list"
  publishersById :: "panel_id \<Rightarrow> advertise_options list"
  pauseTokens :: "pause_token list"
  capabilities :: "string list"
  activeDataStartTime :: "time option"
  \<comment> \<open>timeline interaction state, panel context, logger, uuid\<close>
  hoverStore :: "hover_value option"
  siblingPanels :: "open_sibling list"
  logged :: "log_entry list"
  uuidCounter :: nat

definition uuid :: "world \<Rightarrow> panel_id \<times> world" where
  "uuid w = (uuidCounter w, w\<lparr>uuidCounter := Suc (uuidCounter w)\<rparr>)"

definition logWrite :: "log_entry \<Rightarrow> world \<Rightarrow> world" where
  "logWrite e w = w\<lparr>logged := logged w @ [e]\<rparr>"

text \<open>
  Modelled from the spec: the message pipeline (components/MessagePipeline) is not among
  the sources. It holds a subscription registry and a publisher registry keyed by panel
  id, where a key never set holds no entries, and it hands out a pause/resume token per
  subscriber id; resuming a token is counted on the token.
\<close>

definition setSubscriptions :: "panel_id \<Rightarrow> subscribe_payload list \<Rightarrow> world \<Rightarrow> world" where
  "setSubscriptions pid payloads w = w\<lparr>subscriptionsById := (subscriptionsById w)(pid := payloads)\<rparr>"

definition setPublishers :: "panel_id \<Rightarrow> advertise_options list \<Rightarrow> world \<Rightarrow> world" where
  "setPublishers pid payloads w = w\<lparr>publishersById := (publishersById w)(pid := payloads)\<rparr>"

definition pauseFrame :: "panel_id \<Rightarrow> world \<Rightarrow> nat \<times> world" where
  "pauseFrame pid w =
     (length (pauseTokens w),
      w\<lparr>pauseTokens := pauseTokens w @ [\<lparr>pausedFor = pid, resumed = 0\<rparr>]\<rparr>)"

definition resumeFrame :: "nat \<Rightarrow> world \<Rightarrow> world" where
  "resumeFrame t w =
     (if t < length (pauseTokens w)
      then w\<lparr>pauseTokens :=
               (pauseTokens w)[t := (pauseTokens w ! t)\<lparr>resumed := Suc (resumed (pauseTokens w ! t))\<rparr>]\<rparr>
      else w)"

text \<open>
  Modelled from the spec: the timeline interaction state
  (context/TimelineInteractionStateContext) is not among the sources. It holds at most
  one hover value, tagged with the component id that the caller passes along with it;
  clearing passes a component id and removes the value held under that id.
\<close>

definition setHoverValue :: "hover_value \<Rightarrow> world \<Rightarrow> world" where
  "setHoverValue v w = w\<lparr>hoverStore := Some v\<rparr>"

definition clearHoverValue :: "string \<Rightarrow> world \<Rightarrow> world" where
  "clearHoverValue cid w =
     (case hoverStore w of
        None \<Rightarrow> w
      | Some v \<Rightarrow> if componentId v = cid then w\<lparr>hoverStore := None\<rparr> else w)"

text \<open>Modelled from the spec: \<^verbatim>\<open>openSiblingPanel\<close> of the panel context is not among
  the sources; the request it receives is recorded.\<close>

definition openSiblingPanel :: "open_sibling \<Rightarrow> world \<Rightarrow> world" where
  "openSiblingPanel r w = w\<lparr>siblingPanels := siblingPanels w @ [r]\<rparr>"

subsection \<open>The render cycle\<close>

text \<open>
  The completion callback of the \<open>k\<close>-th closure:
  \<^verbatim>\<open>
  () => {
    if (doneCalled) { log.warn(`${panelId} called render done function twice`); return; }
    doneCalled = true;
    resumeFrame();
    renderingRef.current = false;
  }
  \<close>
  A number that names no closure names no callback, and nothing happens.
\<close>

definition renderDone :: "nat \<Rightarrow> world \<Rightarrow> world" where
  "renderDone k w =
     (if k < length (invocations w)
      then (if doneCalled (invocations w ! k)
            then logWrite (Warn_DoneTwice (closurePanelId (invocations w ! k))) w
            else (resumeFrame (resumeToken (invocations w ! k))
                    (w\<lparr>invocations := (invocations w)[k := (invocations w ! k)\<lparr>doneCalled := True\<rparr>]\<rparr>))
                 \<lparr>renderingRef := False\<rparr>)
      else w)"

text \<open>
  The tail of the layout effect, from \<^verbatim>\<open>setSlowRender(false)\<close> to the end of the
  \<^verbatim>\<open>try\<close> statement. The cell \<^verbatim>\<open>error\<close> holds \<^verbatim>\<open>undefined\<close> or what the \<^verbatim>\<open>catch\<close>
  clause has stored, whatever was thrown; nothing leaves the effect.
\<close>

definition invokeRender :: "render_fn \<Rightarrow> render_state \<Rightarrow> world \<Rightarrow> world" where
  "invokeRender f renderState w =
     (let w1 = w\<lparr>slowRender := False\<rparr>;
          (tok, w2) = pauseFrame (panelId w1) w1;
          w3 = w2\<lparr>renderingRef := True\<rparr>;
          w4 = w3\<lparr>error := Plain JUndefined\<rparr>;
          k = length (invocations w4);
          w5 = w4\<lparr>invocations := invocations w4 @
                 [\<lparr>renderStateArg = renderState, doneCalled = False,
                   resumeToken = tok, closurePanelId = panelId w4\<rparr>]\<rparr>;
          w6 = (renderDone k ^^ doneCalls (f renderState)) w5
      in case thrown (f renderState) of
           None \<Rightarrow> w6
         | Some err \<Rightarrow> w6\<lparr>error := err\<rparr>)"

definition builderInput :: "frame \<Rightarrow> world \<Rightarrow> builder_input" where
  "builderInput fr w =
     BuilderInput (watchedFields w) (globalVariables fr) (hoverValue fr) (playerState fr)
       (colorScheme fr) (appSettings fr) (subscribedTopics w) (currentFrame fr)"

text \<open>The layout effect that runs when one of its inputs has changed.\<close>

definition renderCycle :: "frame \<Rightarrow> world \<Rightarrow> world" where
  "renderCycle fr w =
     (case renderFn w of
        None \<Rightarrow> w
      | Some f \<Rightarrow>
          (case callBuilder (buildRenderState w) (builderInput fr w) of
             (None, b) \<Rightarrow> w\<lparr>buildRenderState := b\<rparr>
           | (Some renderState, b) \<Rightarrow>
               (if renderingRef w
                then w\<lparr>buildRenderState := b, slowRender := True\<rparr>
                else invokeRender f renderState (w\<lparr>buildRenderState := b\<rparr>))))"

text \<open>The body of the component after its hooks: \<^verbatim>\<open>if (error) { throw error; }\<close>, then
  the element, of which the border colour is kept. The test is the truthiness of the
  cell.\<close>

definition renderPass :: "world \<Rightarrow> js_value + string option" where
  "renderPass w =
     (if truthy (error w)
      then Inl (error w)
      else Inr (if slowRender w then Some ''orange'' else None))"

text \<open>A commit in which the inputs of the render cycle have changed: the body of the
  component runs first, and the layout effect runs when the body has not thrown.\<close>

definition commitFrame :: "frame \<Rightarrow> world \<Rightarrow> js_value + world" where
  "commitFrame fr w =
     (case renderPass w of
        Inl v \<Rightarrow> Inl v
      | Inr style \<Rightarrow> Inr (renderCycle fr w))"

subsection \<open>The extension context\<close>

text \<open>
  \<^verbatim>\<open>topics.map(...)\<close> of \<^verbatim>\<open>subscribe\<close>: one payload per entry, and one push to
  \<^verbatim>\<open>newSubscribedTopics\<close> per entry.
\<close>

fun subscribePayloads ::
  "subscription_item list \<Rightarrow> string list \<Rightarrow> subscribe_payload list \<times> string list" where
  "subscribePayloads [] newSubscribedTopics = ([], newSubscribedTopics)"
| "subscribePayloads (TopicString item # items) newSubscribedTopics =
     (case subscribePayloads items (newSubscribedTopics @ [item]) of
        (ps, ts) \<Rightarrow> (\<lparr>topic = item, preloadType = Full\<rparr> # ps, ts))"
| "subscribePayloads (Subscription t preload # items) newSubscribedTopics =
     (case subscribePayloads items (newSubscribedTopics @ [t]) of
        (ps, ts) \<Rightarrow>
          (\<lparr>topic = t, preloadType = (if preload = Some True then Full else Partial)\<rparr> # ps, ts))"

definition subscribe :: "subscription_item list \<Rightarrow> world \<Rightarrow> world" where
  "subscribe topics w =
     (case subscribePayloads topics [] of
        (payloads, newSubscribedTopics) \<Rightarrow>
          setSubscriptions (panelId w) payloads (w\<lparr>subscribedTopics := newSubscribedTopics\<rparr>))"

definition unsubscribeAll :: "world \<Rightarrow> world" where
  "unsubscribeAll w = setSubscriptions (panelId w) [] (w\<lparr>subscribedTopics := []\<rparr>)"

definition watch :: "string \<Rightarrow> world \<Rightarrow> world" where
  "watch field w = w\<lparr>watchedFields := insert field (watchedFields w)\<rparr>"

definition advertiseFn :: "string \<Rightarrow> string \<Rightarrow> json \<Rightarrow> world \<Rightarrow> world" where
  "advertiseFn t datatypeName opts w =
     (let payload = \<lparr>advTopic = t, advDatatype = datatypeName, advOptions = opts\<rparr>;
          w1 = w\<lparr>advertisementsRef := mapSet t payload (advertisementsRef w)\<rparr>
      in setPublishers (panelId w1) (mapValues (advertisementsRef w1)) w1)"

definition unadvertiseFn :: "string \<Rightarrow> world \<Rightarrow> world" where
  "unadvertiseFn t w =
     (let w1 = w\<lparr>advertisementsRef := mapDelete t (advertisementsRef w)\<rparr>
      in setPublishers (panelId w1) (mapValues (advertisementsRef w1)) w1)"

text \<open>Both methods exist only with the capability; without it the field is
  \<^verbatim>\<open>undefined\<close>.\<close>

definition advertise :: "world \<Rightarrow> (string \<Rightarrow> string \<Rightarrow> json \<Rightarrow> world \<Rightarrow> world) option" where
  "advertise w =
     (if PlayerCapabilities_advertise \<in> set (capabilities w) then Some advertiseFn else None)"

definition unadvertise :: "world \<Rightarrow> (string \<Rightarrow> world \<Rightarrow> world) option" where
  "unadvertise w =
     (if PlayerCapabilities_advertise \<in> set (capabilities w) then Some unadvertiseFn else None)"

definition setPreviewTime :: "real option \<Rightarrow> world \<Rightarrow> world" where
  "setPreviewTime stamp w =
     (case stamp of
        None \<Rightarrow> clearHoverValue ''PanelExtensionAdatper'' w
      | Some s \<Rightarrow>
          (case activeDataStartTime w of
             None \<Rightarrow> w
           | Some startTime \<Rightarrow>
               setHoverValue
                 \<lparr>hvType = ''PLAYBACK_SECONDS'', componentId = ''PanelExtensionAdatper'',
                  hvValue = s - toSec startTime\<rparr> w))"

definition addPanel :: "string \<Rightarrow> string \<Rightarrow> bool \<Rightarrow> (json \<Rightarrow> json) \<Rightarrow> world \<Rightarrow> js_error + world" where
  "addPanel position type updateIfExists' getState w =
     (if position = ''sibling''
      then Inr (openSiblingPanel
                  \<lparr>panelType = type, updateIfExists = updateIfExists',
                   siblingConfigCreator = (\<lambda>existingConfig. getState existingConfig)\<rparr> w)
      else assertNever position (''Unsupported position for addPanel: '' @ position))"

subsection \<open>The life of a panel\<close>

text \<open>
  What \<^verbatim>\<open>initPanel\<close> and the extension do with the context is a list of calls. A call
  of a method that is \<^verbatim>\<open>undefined\<close> throws a \<^verbatim>\<open>TypeError\<close>; an exception ends the
  list.
\<close>

datatype ext_call =
    Watch string
  | Subscribe "subscription_item list"
  | UnsubscribeAll
  | Advertise string string json
  | Unadvertise string
  | SetPreviewTime "real option"
  | AddPanel string string bool "json \<Rightarrow> json"
  | SetOnRender "render_fn option"

fun callContext :: "ext_call \<Rightarrow> world \<Rightarrow> js_error + world" where
  "callContext (Watch field) w = Inr (watch field w)"
| "callContext (Subscribe topics) w = Inr (subscribe topics w)"
| "callContext UnsubscribeAll w = Inr (unsubscribeAll w)"
| "callContext (Advertise t d opts) w =
     (case advertise w of
        None \<Rightarrow> Inl (TypeError ''advertise is not a function'')
      | Some f \<Rightarrow> Inr (f t d opts w))"
| "callContext (Unadvertise t) w =
     (case unadvertise w of
        None \<Rightarrow> Inl (TypeError ''unadvertise is not a function'')
      | Some f \<Rightarrow> Inr (f t w))"
| "callContext (SetPreviewTime stamp) w = Inr (setPreviewTime stamp w)"
| "callContext (AddPanel position type upd getState) w = addPanel position type upd getState w"
| "callContext (SetOnRender renderFunction) w = Inr (w\<lparr>renderFn := renderFunction\<rparr>)"

fun callAll :: "ext_call list \<Rightarrow> world \<Rightarrow> js_error + world" where
  "callAll [] w = Inr w"
| "callAll (c # cs) w = (case callContext c w of Inl e \<Rightarrow> Inl e | Inr w' \<Rightarrow> callAll cs w')"

text \<open>The cleanup the init effect returns, for the panel id it was set up with.\<close>

definition cleanupPanel :: "panel_id \<Rightarrow> world \<Rightarrow> world" where
  "cleanupPanel pid w = (setPublishers pid [] (setSubscriptions pid [] w))\<lparr>mountedPanelId := None\<rparr>"

text \<open>The cleanup of the last run of the init effect, when there is one.\<close>

definition runCleanup :: "world \<Rightarrow> world" where
  "runCleanup w = (case mountedPanelId w of None \<Rightarrow> w | Some pid \<Rightarrow> cleanupPanel pid w)"

text \<open>
  The state in which \<^verbatim>\<open>initPanel\<close> is called: the cleanup of the previous run is done,
  the render function and the builder are reset, the line is logged.
\<close>

definition beginInit :: "builder \<Rightarrow> world \<Rightarrow> js_error + world" where
  "beginInit initRenderStateBuilder w =
     (let w0 = runCleanup w
      in if \<not> panelContainerRef w0
         then Inl (Error ''Expected panel container to be mounted'')
         else Inr ((logWrite (Info_InitPanel (panelId w0))
                      (w0\<lparr>renderFn := None, buildRenderState := initRenderStateBuilder\<rparr>))
                   \<lparr>initPanelCalls := Suc (initPanelCalls w0)\<rparr>))"

definition initEffect :: "builder \<Rightarrow> ext_call list \<Rightarrow> world \<Rightarrow> js_error + world" where
  "initEffect initRenderStateBuilder initPanel w =
     (case beginInit initRenderStateBuilder w of
        Inl e \<Rightarrow> Inl e
      | Inr w1 \<Rightarrow>
          (case callAll initPanel w1 of
             Inl e \<Rightarrow> Inl e
           | Inr w2 \<Rightarrow> Inr (w2\<lparr>mountedPanelId := Some (panelId w2)\<rparr>)))"

text \<open>\<^verbatim>\<open>useUpdateEffect(..., [config])\<close>: the config handed to the component has changed.\<close>

definition configUpdateEffect :: "json \<Rightarrow> world \<Rightarrow> world" where
  "configUpdateEffect config w =
     (let w1 = w\<lparr>initialState := config\<rparr>
      in if isEqualEmptyObject config
         then (case uuid w1 of (u, w2) \<Rightarrow> w2\<lparr>panelId := u\<rparr>)
         else w1)"

text \<open>
  A change of config, from the render pass that receives it to the end of the commit
  that follows. The body of the component throws when the cell \<^verbatim>\<open>error\<close> is truthy.
  Otherwise \<^verbatim>\<open>useUpdateEffect\<close> runs, and when it has drawn another panel id the next
  commit runs, in this order, the cleanup of the init effect, the render-cycle effect
  (the panel id is one of its inputs; the render function and the builder are still
  those of the panel before), and the init effect.
\<close>

definition configChanged ::
  "builder \<Rightarrow> ext_call list \<Rightarrow> frame \<Rightarrow> json \<Rightarrow> world \<Rightarrow> js_value + world" where
  "configChanged initRenderStateBuilder initPanel fr config w =
     (case renderPass w of
        Inl v \<Rightarrow> Inl v
      | Inr style \<Rightarrow>
          (let w1 = configUpdateEffect config w
           in if panelId w1 \<noteq> panelId w
              then map_sum Obj_Error id
                     (initEffect initRenderStateBuilder initPanel
                        (renderCycle fr (runCleanup w1)))
              else Inr w1))"

text \<open>The first render: every cell takes its initial value, the container is attached.
  The collaborators are as the component finds them.\<close>

definition mountAdapter :: "json \<Rightarrow> builder \<Rightarrow> world \<Rightarrow> world" where
  "mountAdapter config initRenderStateBuilder env =
     (case uuid env of
        (pid, e1) \<Rightarrow>
          e1\<lparr>initialState := config, panelId := pid, error := Plain JUndefined,
             watchedFields := {},
             subscribedTopics := [], renderFn := None, slowRender := False,
             advertisementsRef := [], buildRenderState := initRenderStateBuilder,
             renderingRef := False, panelContainerRef := True, invocations := [],
             mountedPanelId := None, initPanelCalls := 0\<rparr>)"

subsection \<open>Runs\<close>

datatype event =
    RenderEffect frame
  | DoneCallback nat
  | ContextCall ext_call
  | ConfigEffect json
  | InitEffect "ext_call list"

fun step :: "builder \<Rightarrow> event \<Rightarrow> world \<Rightarrow> js_error + world" where
  "step irsb (RenderEffect fr) w = Inr (renderCycle fr w)"
| "step irsb (DoneCallback k) w = Inr (renderDone k w)"
| "step irsb (ContextCall c) w = callContext c w"
| "step irsb (ConfigEffect config) w = Inr (configUpdateEffect config w)"
| "step irsb (InitEffect initPanel) w = initEffect irsb initPanel w"

fun run :: "builder \<Rightarrow> event list \<Rightarrow> world \<Rightarrow> js_error + world" where
  "run irsb [] w = Inr w"
| "run irsb (e # es) w = (case step irsb e w of Inl err \<Rightarrow> Inl err | Inr w' \<Rightarrow> run irsb es w')"

text \<open>The calls of the render function whose completion callback has not been called.\<close>

definition inFlight :: "world \<Rightarrow> nat" where
  "inFlight w = length (filter (\<lambda>i. \<not> doneCalled i) (invocations w))"

text \<open>The lock \<^verbatim>\<open>renderingRef\<close> is held exactly when one call is in flight.\<close>

definition lockConsistent :: "world \<Rightarrow> bool" where
  "lockConsistent w = (inFlight w = (if renderingRef w then 1 else 0))"

text \<open>The \<open>k\<close>-th closure exists, captured panel id \<open>p\<close>, and its completion callback has
  been called.\<close>

definition settled :: "nat \<Rightarrow> panel_id \<Rightarrow> world \<Rightarrow> bool" where
  "settled k p w =
     (k < length (invocations w) \<and> doneCalled (invocations w ! k)
      \<and> closurePanelId (invocations w ! k) = p)"

text \<open>The topic of an entry of \<^verbatim>\<open>subscribe\<close>, and the payload the entry is mapped to.\<close>

fun itemTopic :: "subscription_item \<Rightarrow> string" where
  "itemTopic (TopicString item) = item"
| "itemTopic (Subscription t preload) = t"

fun itemPayload :: "subscription_item \<Rightarrow> subscribe_payload" where
  "itemPayload (TopicString item) = \<lparr>topic = item, preloadType = Full\<rparr>"
| "itemPayload (Subscription t preload) =
     \<lparr>topic = t, preloadType = (if preload = Some True then Full else Partial)\<rparr>"

subsection \<open>Concrete inputs\<close>

text \<open>A pipeline with the advertise capability and a known start time, nothing
  registered; a builder that yields the current frame whenever there is one; a panel
  that never completes a render, one that completes at once, one that throws an error
  object and one that throws \<^verbatim>\<open>undefined\<close>.\<close>

definition exampleEnv :: world where
  "exampleEnv =
     \<lparr>initialState = JUndefined, panelId = 0, error = Plain JUndefined, watchedFields = {},
      subscribedTopics = [], renderFn = None, slowRender = False, advertisementsRef = [],
      buildRenderState = \<lparr>captured = JNull, code = (\<lambda>c i. (None, c))\<rparr>,
      renderingRef = False, panelContainerRef = False, invocations = [],
      mountedPanelId = None, initPanelCalls = 0,
      subscriptionsById = (\<lambda>pid. []), publishersById = (\<lambda>pid. []), pauseTokens = [],
      capabilities = [''advertise''], activeDataStartTime = Some \<lparr>sec = 100, nsec = 0\<rparr>,
      hoverStore = None, siblingPanels = [], logged = [], uuidCounter = 0\<rparr>"

definition frameBuilder :: builder where
  "frameBuilder =
     \<lparr>captured = JNull,
      code = (\<lambda>c i. case i of BuilderInput watched gv hv ps cs ap subs cf \<Rightarrow>
                (if cf = JUndefined then None else Some cf, c))\<rparr>"

definition exampleFrame :: "json \<Rightarrow> frame" where
  "exampleFrame cf =
     \<lparr>globalVariables = JObj [], hoverValue = JUndefined, playerState = JObj [],
      colorScheme = ''dark'', appSettings = JObj [], currentFrame = cf\<rparr>"

definition pendingPanel :: render_fn where
  "pendingPanel = (\<lambda>rs. \<lparr>doneCalls = 0, thrown = None\<rparr>)"

definition promptPanel :: render_fn where
  "promptPanel = (\<lambda>rs. \<lparr>doneCalls = 1, thrown = None\<rparr>)"

definition crashingPanel :: render_fn where
  "crashingPanel = (\<lambda>rs. \<lparr>doneCalls = 0, thrown = Some (Obj_Error (Error ''render failed''))\<rparr>)"

definition undefinedThrowingPanel :: render_fn where
  "undefinedThrowingPanel = (\<lambda>rs. \<lparr>doneCalls = 0, thrown = Some (Plain JUndefined)\<rparr>)"

text \<open>The adapter mounted on that pipeline; a panel that watches the current frame and
  sets a render function, and one frame for it; the state after that frame, in which
  the render is outstanding; the state after its completion callback; the same with a
  render function that throws an error object, and with one that throws \<^verbatim>\<open>undefined\<close>;
  a pipeline without start time; an adapter that has
  advertised one topic, and that adapter after its config was cleared.\<close>

definition exampleMounted :: world where
  "exampleMounted = mountAdapter (JObj [(''mode'', JStr ''a'')]) frameBuilder exampleEnv"

definition exampleEvents :: "event list" where
  "exampleEvents =
     [InitEffect [Watch ''currentFrame'', SetOnRender (Some pendingPanel)],
      RenderEffect (exampleFrame (JStr ''m1''))]"

definition exampleRunning :: world where
  "exampleRunning =
     (case run frameBuilder exampleEvents exampleMounted of Inr w \<Rightarrow> w | Inl e \<Rightarrow> exampleEnv)"

definition exampleIdle :: world where
  "exampleIdle = renderDone 0 exampleRunning"

definition exampleCrashing :: world where
  "exampleCrashing = exampleIdle\<lparr>renderFn := Some crashingPanel\<rparr>"

definition exampleThrowingUndefined :: world where
  "exampleThrowingUndefined = exampleIdle\<lparr>renderFn := Some undefinedThrowingPanel\<rparr>"

definition exampleNoStart :: world where
  "exampleNoStart = exampleEnv\<lparr>activeDataStartTime := None\<rparr>"

definition exampleAdvertised :: world where
  "exampleAdvertised = advertiseFn ''/cmd'' ''Twist'' JUndefined exampleMounted"

definition exampleAfterReset :: world where
  "exampleAfterReset =
     (case configChanged frameBuilder [] (exampleFrame JUndefined) (JObj []) exampleAdvertised of
        Inr w \<Rightarrow> w
      | Inl e \<Rightarrow> exampleEnv)"

section \<open>Properties\<close>

subsection \<open>The concrete inputs, evaluated\<close>

lemmas example_defs =
  exampleMounted_def exampleEvents_def mountAdapter_def uuid_def exampleEnv_def
  initEffect_def beginInit_def runCleanup_def logWrite_def watch_def renderCycle_def callBuilder_def
  builderInput_def frameBuilder_def exampleFrame_def invokeRender_def pauseFrame_def
  pendingPanel_def Let_def

lemma exampleRunning_run:
  "run frameBuilder exampleEvents exampleMounted = Inr exampleRunning"
  unfolding exampleRunning_def
  by (simp add: example_defs)

lemma exampleRunning_fields:
  "renderFn exampleRunning = Some pendingPanel"
  "renderingRef exampleRunning"
  "buildRenderState exampleRunning = frameBuilder"
  "watchedFields exampleRunning = {''currentFrame''}"
  "invocations exampleRunning =
     [\<lparr>renderStateArg = JStr ''m1'', doneCalled = False, resumeToken = 0, closurePanelId = 0\<rparr>]"
  "pauseTokens exampleRunning = [\<lparr>pausedFor = 0, resumed = 0\<rparr>]"
  "panelId exampleRunning = 0"
  "slowRender exampleRunning = False"
  "error exampleRunning = Plain JUndefined"
  unfolding exampleRunning_def
  by (simp_all add: example_defs)

lemma exampleRunning_more:
  "panelContainerRef exampleRunning"
  "uuidCounter exampleRunning = 1"
  "initialState exampleRunning = JObj [(''mode'', JStr ''a'')]"
  "mountedPanelId exampleRunning = Some 0"
  "initPanelCalls exampleRunning = 1"
  unfolding exampleRunning_def
  by (simp_all add: example_defs)

lemma exampleIdle_fields:
  "renderFn exampleIdle = Some pendingPanel"
  "renderingRef exampleIdle = False"
  "buildRenderState exampleIdle = frameBuilder"
  "watchedFields exampleIdle = {''currentFrame''}"
  "invocations exampleIdle =
     [\<lparr>renderStateArg = JStr ''m1'', doneCalled = True, resumeToken = 0, closurePanelId = 0\<rparr>]"
  "pauseTokens exampleIdle = [\<lparr>pausedFor = 0, resumed = 1\<rparr>]"
  "slowRender exampleIdle = False"
  "error exampleIdle = Plain JUndefined"
  "subscribedTopics exampleIdle = subscribedTopics exampleRunning"
  by (simp_all add: exampleIdle_def renderDone_def resumeFrame_def exampleRunning_fields)

lemma exampleAdvertised_fields:
  "capabilities exampleAdvertised = [''advertise'']"
  "panelId exampleAdvertised = 0"
  "advertisementsRef exampleAdvertised
     = [(''/cmd'', \<lparr>advTopic = ''/cmd'', advDatatype = ''Twist'', advOptions = JUndefined\<rparr>)]"
  "publishersById exampleAdvertised 0
     = [\<lparr>advTopic = ''/cmd'', advDatatype = ''Twist'', advOptions = JUndefined\<rparr>]"
  by (simp_all add: exampleAdvertised_def advertiseFn_def setPublishers_def mapValues_def
        exampleMounted_def mountAdapter_def uuid_def exampleEnv_def Let_def)

subsection \<open>Subscriptions\<close>

lemma subscribePayloads_map:
  "subscribePayloads items acc = (map itemPayload items, acc @ map itemTopic items)"
  by (induction items acc rule: subscribePayloads.induct) simp_all

lemma subscribe_fields:
  "subscribedTopics (subscribe items w) = map itemTopic items"
  "subscriptionsById (subscribe items w) = (subscriptionsById w)(panelId w := map itemPayload items)"
  "panelId (subscribe items w) = panelId w"
  by (simp_all add: subscribe_def subscribePayloads_map setSubscriptions_def)

lemma fold_subscribe_panelId: "panelId (fold subscribe calls w) = panelId w"
  by (induction calls arbitrary: w) (simp_all add: subscribe_fields)

text \<open>
  C3. After any sequence of \<^verbatim>\<open>subscribe\<close> calls the subscribed-topic list is the topic
  list of the last call, and the registry entry of the panel id holds the payloads of
  the last call: both are what the last call alone yields, whatever came before.
\<close>

theorem subscribe_last_write_wins:
  "subscribedTopics (fold subscribe (calls @ [topics]) w) = map itemTopic topics
   \<and> subscribedTopics (fold subscribe (calls @ [topics]) w) = subscribedTopics (subscribe topics w)
   \<and> subscriptionsById (fold subscribe (calls @ [topics]) w) (panelId w)
       = subscriptionsById (subscribe topics w) (panelId w)
   \<and> subscriptionsById (fold subscribe (calls @ [topics]) w) (panelId w)
       = fst (subscribePayloads topics [])"
  by (simp add: subscribe_fields fold_subscribe_panelId subscribePayloads_map)

theorem subscribe_last_write_wins_witness:
  "subscribedTopics
     (fold subscribe ([[TopicString ''/a'', TopicString ''/b''], [TopicString ''/c'']]
                      @ [[Subscription ''/d'' (Some True)]]) exampleMounted) = [''/d'']
   \<and> subscriptionsById
       (fold subscribe ([[TopicString ''/a'', TopicString ''/b''], [TopicString ''/c'']]
                        @ [[Subscription ''/d'' (Some True)]]) exampleMounted)
       (panelId exampleMounted) = [\<lparr>topic = ''/d'', preloadType = Full\<rparr>]"
proof -
  note t = subscribe_last_write_wins
             [of "[[TopicString ''/a'', TopicString ''/b''], [TopicString ''/c'']]"
                 "[Subscription ''/d'' (Some True)]" exampleMounted]
  from t have a: "subscribedTopics
     (fold subscribe ([[TopicString ''/a'', TopicString ''/b''], [TopicString ''/c'']]
                      @ [[Subscription ''/d'' (Some True)]]) exampleMounted)
       = map itemTopic [Subscription ''/d'' (Some True)]"
    by blast
  from t have b: "subscriptionsById
       (fold subscribe ([[TopicString ''/a'', TopicString ''/b''], [TopicString ''/c'']]
                        @ [[Subscription ''/d'' (Some True)]]) exampleMounted)
       (panelId exampleMounted) = fst (subscribePayloads [Subscription ''/d'' (Some True)] [])"
    by blast
  from a b show ?thesis by simp
qed

text \<open>
  C10. In a \<^verbatim>\<open>subscribe\<close> call, a topic string is forwarded with full preloading, a
  subscription object with full preloading exactly when its \<^verbatim>\<open>preload\<close> is \<^verbatim>\<open>true\<close>
  and with partial preloading otherwise; the topic of either entry is in the
  subscribed-topic list at the entry's position, and no entry is lost or added.
\<close>

theorem subscribe_preload_mapping:
  "subscriptionsById (subscribe (pre @ TopicString t # post) w) (panelId w) ! length pre
     = \<lparr>topic = t, preloadType = Full\<rparr>
   \<and> subscriptionsById (subscribe (pre @ Subscription t p # post) w) (panelId w) ! length pre
     = \<lparr>topic = t, preloadType = (if p = Some True then Full else Partial)\<rparr>
   \<and> subscribedTopics (subscribe (pre @ TopicString t # post) w) ! length pre = t
   \<and> subscribedTopics (subscribe (pre @ Subscription t p # post) w) ! length pre = t
   \<and> length (subscriptionsById (subscribe items w) (panelId w)) = length items
   \<and> length (subscribedTopics (subscribe items w)) = length items"
  by (simp add: subscribe_fields nth_append)

theorem subscribe_preload_mapping_witness:
  "subscriptionsById
     (subscribe ([TopicString ''/a''] @ Subscription ''/b'' (Some False) # [Subscription ''/c'' None])
        exampleMounted) (panelId exampleMounted) ! length [TopicString ''/a'']
     = \<lparr>topic = ''/b'', preloadType = Partial\<rparr>
   \<and> subscribedTopics
       (subscribe ([TopicString ''/a''] @ Subscription ''/b'' (Some False) # [Subscription ''/c'' None])
          exampleMounted) ! length [TopicString ''/a''] = ''/b''"
proof -
  note t = subscribe_preload_mapping
             [of "[TopicString ''/a'']" "''/b''" "[Subscription ''/c'' None]" exampleMounted
                 "Some False" "[]"]
  from t have a: "subscriptionsById
     (subscribe ([TopicString ''/a''] @ Subscription ''/b'' (Some False) # [Subscription ''/c'' None])
        exampleMounted) (panelId exampleMounted) ! length [TopicString ''/a'']
     = \<lparr>topic = ''/b'', preloadType = (if Some False = Some True then Full else Partial)\<rparr>"
    by blast
  from t have b: "subscribedTopics
       (subscribe ([TopicString ''/a''] @ Subscription ''/b'' (Some False) # [Subscription ''/c'' None])
          exampleMounted) ! length [TopicString ''/a''] = ''/b''"
    by blast
  from a b show ?thesis by simp
qed

subsection \<open>The completion callback and the lock\<close>



lemma logWrite_funpow: "(logWrite e ^^ n) w = w\<lparr>logged := logged w @ replicate n e\<rparr>"
proof (induction n)
  case 0
  show ?case by simp
next
  case (Suc n)
  then show ?case by (simp add: logWrite_def replicate_append_same)
qed

lemma renderDone_called:
  "k < length (invocations w) \<Longrightarrow> doneCalled (invocations w ! k) \<Longrightarrow>
   renderDone k w = logWrite (Warn_DoneTwice (closurePanelId (invocations w ! k))) w"
  by (simp add: renderDone_def)

lemma renderDone_invocations:
  "invocations (renderDone k w) =
     (if k < length (invocations w) \<and> \<not> doneCalled (invocations w ! k)
      then (invocations w)[k := (invocations w ! k)\<lparr>doneCalled := True\<rparr>]
      else invocations w)"
  by (simp add: renderDone_def logWrite_def resumeFrame_def)

lemma renderDone_sets_flag:
  "k < length (invocations w) \<Longrightarrow> doneCalled (invocations (renderDone k w) ! k)"
  by (simp add: renderDone_invocations)

lemma renderDone_keeps_closure:
  "closurePanelId (invocations (renderDone k w) ! j) = closurePanelId (invocations w ! j)"
  by (cases "j = k") (simp_all add: renderDone_invocations)

lemma renderDone_length: "length (invocations (renderDone k w)) = length (invocations w)"
  by (simp add: renderDone_invocations)

lemma renderDone_funpow:
  assumes "k < length (invocations w)"
  shows "(renderDone k ^^ Suc n) w =
         (logWrite (Warn_DoneTwice (closurePanelId (invocations w ! k))) ^^ n) (renderDone k w)"
proof (induction n)
  case 0
  show ?case by simp
next
  case (Suc n)
  let ?e = "Warn_DoneTwice (closurePanelId (invocations w ! k))"
  let ?v = "(logWrite ?e ^^ n) (renderDone k w)"
  have inv: "invocations ?v = invocations (renderDone k w)"
    by (simp add: logWrite_funpow)
  have "(renderDone k ^^ Suc (Suc n)) w = renderDone k ?v"
    using Suc by simp
  also have "\<dots> = logWrite ?e ?v"
    using assms renderDone_called [of k ?v]
    by (simp add: inv renderDone_length renderDone_sets_flag renderDone_keeps_closure)
  finally show ?case by simp
qed

lemma filter_undone_update:
  "k < length xs \<Longrightarrow> \<not> doneCalled (xs ! k) \<Longrightarrow>
   Suc (length (filter (\<lambda>i. \<not> doneCalled i) (xs[k := (xs ! k)\<lparr>doneCalled := True\<rparr>])))
     = length (filter (\<lambda>i. \<not> doneCalled i) xs)"
proof (induction xs arbitrary: k)
  case Nil
  then show ?case by simp
next
  case (Cons x xs)
  then show ?case by (cases k) simp_all
qed

lemma inFlight_renderDone:
  "inFlight (renderDone k w) =
     (if k < length (invocations w) \<and> \<not> doneCalled (invocations w ! k)
      then inFlight w - 1 else inFlight w)"
  using filter_undone_update [of k "invocations w"]
  by (auto simp add: inFlight_def renderDone_invocations)

lemma undone_positive:
  "k < length (invocations w) \<Longrightarrow> \<not> doneCalled (invocations w ! k) \<Longrightarrow> 0 < inFlight w"
  unfolding inFlight_def
  by (metis (mono_tags, lifting) filter_empty_conv length_greater_0_conv nth_mem)

lemma renderDone_renderingRef:
  "renderingRef (renderDone k w) =
     (if k < length (invocations w) \<and> \<not> doneCalled (invocations w ! k)
      then False else renderingRef w)"
  by (simp add: renderDone_def logWrite_def resumeFrame_def)

lemma lockConsistent_renderDone: "lockConsistent w \<Longrightarrow> lockConsistent (renderDone k w)"
  using undone_positive [of k w]
  by (auto simp add: lockConsistent_def inFlight_renderDone renderDone_renderingRef split: if_splits)

lemma lockConsistent_renderDone_funpow: "lockConsistent w \<Longrightarrow> lockConsistent ((renderDone k ^^ n) w)"
  by (induction n) (simp_all add: lockConsistent_renderDone)


lemma renderDone_fresh_funpow:
  assumes "invocations w5 = xs @ [\<lparr>renderStateArg = rs, doneCalled = False,
                                   resumeToken = t, closurePanelId = p\<rparr>]"
      and "pauseTokens w5 = ts @ [\<lparr>pausedFor = p, resumed = 0\<rparr>]"
      and "t = length ts"
  shows "(renderDone (length xs) ^^ n) w5 =
         w5\<lparr>pauseTokens := ts @ [\<lparr>pausedFor = p, resumed = (if n = 0 then 0 else 1)\<rparr>],
            renderingRef := (if n = 0 then renderingRef w5 else False),
            invocations := xs @ [\<lparr>renderStateArg = rs, doneCalled = (n \<noteq> 0),
                                  resumeToken = t, closurePanelId = p\<rparr>],
            logged := logged w5 @ replicate (n - 1) (Warn_DoneTwice p)\<rparr>"
proof (cases n)
  case 0
  then show ?thesis using assms by simp
next
  case (Suc m)
  have k: "length xs < length (invocations w5)" using assms by simp
  have first: "renderDone (length xs) w5 =
         w5\<lparr>pauseTokens := ts @ [\<lparr>pausedFor = p, resumed = 1\<rparr>],
            renderingRef := False,
            invocations := xs @ [\<lparr>renderStateArg = rs, doneCalled = True,
                                  resumeToken = t, closurePanelId = p\<rparr>]\<rparr>"
    using assms by (simp add: renderDone_def resumeFrame_def)
  show ?thesis
    unfolding Suc renderDone_funpow [OF k] first logWrite_funpow
    using assms by simp
qed

lemma invokeRender_closed:
  "invokeRender f rs w =
     w\<lparr>slowRender := False,
       pauseTokens := pauseTokens w @
         [\<lparr>pausedFor = panelId w, resumed = (if doneCalls (f rs) = 0 then 0 else 1)\<rparr>],
       renderingRef := (doneCalls (f rs) = 0),
       error := (case thrown (f rs) of None \<Rightarrow> Plain JUndefined | Some err \<Rightarrow> err),
       invocations := invocations w @
         [\<lparr>renderStateArg = rs, doneCalled = (doneCalls (f rs) \<noteq> 0),
           resumeToken = length (pauseTokens w), closurePanelId = panelId w\<rparr>],
       logged := logged w @ replicate (doneCalls (f rs) - 1) (Warn_DoneTwice (panelId w))\<rparr>"
proof -
  let ?w5 = "w\<lparr>slowRender := False,
       pauseTokens := pauseTokens w @ [\<lparr>pausedFor = panelId w, resumed = 0\<rparr>],
       renderingRef := True, error := Plain JUndefined,
       invocations := invocations w @
         [\<lparr>renderStateArg = rs, doneCalled = False,
           resumeToken = length (pauseTokens w), closurePanelId = panelId w\<rparr>]\<rparr>"
  have unfold: "invokeRender f rs w =
      (case thrown (f rs) of
         None \<Rightarrow> (renderDone (length (invocations w)) ^^ doneCalls (f rs)) ?w5
       | Some err \<Rightarrow> ((renderDone (length (invocations w)) ^^ doneCalls (f rs)) ?w5)\<lparr>error := err\<rparr>)"
    by (simp add: invokeRender_def pauseFrame_def Let_def cong: option.case_cong)
  have closed: "(renderDone (length (invocations w)) ^^ doneCalls (f rs)) ?w5 =
      ?w5\<lparr>pauseTokens := pauseTokens w @
              [\<lparr>pausedFor = panelId w, resumed = (if doneCalls (f rs) = 0 then 0 else 1)\<rparr>],
            renderingRef := (if doneCalls (f rs) = 0 then renderingRef ?w5 else False),
            invocations := invocations w @
              [\<lparr>renderStateArg = rs, doneCalled = (doneCalls (f rs) \<noteq> 0),
                resumeToken = length (pauseTokens w), closurePanelId = panelId w\<rparr>],
            logged := logged ?w5 @ replicate (doneCalls (f rs) - 1) (Warn_DoneTwice (panelId w))\<rparr>"
    by (rule renderDone_fresh_funpow) simp_all
  show ?thesis
    unfolding unfold closed by (simp split: option.split)
qed



lemma renderCycle_cases:
  "renderCycle fr w =
     (if renderFn w = None then w
      else if fst (callBuilder (buildRenderState w) (builderInput fr w)) = None
      then w\<lparr>buildRenderState := snd (callBuilder (buildRenderState w) (builderInput fr w))\<rparr>
      else if renderingRef w
      then w\<lparr>buildRenderState := snd (callBuilder (buildRenderState w) (builderInput fr w)),
             slowRender := True\<rparr>
      else invokeRender (the (renderFn w))
             (the (fst (callBuilder (buildRenderState w) (builderInput fr w))))
             (w\<lparr>buildRenderState := snd (callBuilder (buildRenderState w) (builderInput fr w))\<rparr>))"
  by (auto simp add: renderCycle_def split: option.split prod.split)

lemma inFlight_snoc:
  "inFlight (w\<lparr>invocations := invocations w @ [i]\<rparr>) = inFlight w + (if doneCalled i then 0 else 1)"
  by (simp add: inFlight_def)

lemma lockConsistent_invokeRender:
  assumes "lockConsistent w" and "\<not> renderingRef w"
  shows "lockConsistent (invokeRender f rs w)"
  using assms by (simp add: invokeRender_closed lockConsistent_def inFlight_def)

lemma lockConsistent_renderCycle: "lockConsistent w \<Longrightarrow> lockConsistent (renderCycle fr w)"
proof -
  assume t: "lockConsistent w"
  have b: "lockConsistent (w\<lparr>buildRenderState := b\<rparr>)" for b
    using t by (simp add: lockConsistent_def inFlight_def)
  have s: "lockConsistent (w\<lparr>buildRenderState := b, slowRender := True\<rparr>)" for b
    using t by (simp add: lockConsistent_def inFlight_def)
  show ?thesis
    unfolding renderCycle_cases using t b s
    by (simp add: lockConsistent_invokeRender)
qed

lemma settled_renderDone: "settled k p w \<Longrightarrow> settled k p (renderDone j w)"
  by (cases "j = k") (auto simp add: settled_def renderDone_invocations)

lemma settled_renderCycle: "settled k p w \<Longrightarrow> settled k p (renderCycle fr w)"
  unfolding renderCycle_cases
  by (simp add: settled_def invokeRender_closed nth_append)

lemma callContext_keeps:
  assumes "callContext c w = Inr w'"
  shows "invocations w' = invocations w \<and> renderingRef w' = renderingRef w
         \<and> panelId w' = panelId w \<and> buildRenderState w' = buildRenderState w
         \<and> watchedFields w \<subseteq> watchedFields w' \<and> uuidCounter w' = uuidCounter w
         \<and> initPanelCalls w' = initPanelCalls w \<and> initialState w' = initialState w
         \<and> panelContainerRef w' = panelContainerRef w \<and> pauseTokens w' = pauseTokens w"
  using assms
  by (cases c)
     (auto simp add: watch_def subscribe_def unsubscribeAll_def setSubscriptions_def
        advertise_def unadvertise_def advertiseFn_def unadvertiseFn_def setPublishers_def
        setPreviewTime_def clearHoverValue_def setHoverValue_def addPanel_def
        openSiblingPanel_def assertNever_def Let_def
        split: option.splits prod.splits if_splits)

lemma callAll_keeps:
  "callAll cs w = Inr w' \<Longrightarrow>
     invocations w' = invocations w \<and> renderingRef w' = renderingRef w
     \<and> panelId w' = panelId w \<and> buildRenderState w' = buildRenderState w
     \<and> watchedFields w \<subseteq> watchedFields w' \<and> uuidCounter w' = uuidCounter w
     \<and> initPanelCalls w' = initPanelCalls w \<and> initialState w' = initialState w
     \<and> panelContainerRef w' = panelContainerRef w \<and> pauseTokens w' = pauseTokens w"
proof (induction cs arbitrary: w)
  case Nil
  then show ?case by simp
next
  case (Cons c cs)
  then obtain w1 where c: "callContext c w = Inr w1" and r: "callAll cs w1 = Inr w'"
    by (auto split: sum.splits)
  from Cons.IH [OF r] callContext_keeps [OF c] show ?case by auto
qed

lemma beginInit_keeps:
  "beginInit irsb w = Inr w' \<Longrightarrow>
     invocations w' = invocations w \<and> renderingRef w' = renderingRef w
     \<and> panelId w' = panelId w \<and> buildRenderState w' = irsb \<and> renderFn w' = None
     \<and> watchedFields w' = watchedFields w \<and> uuidCounter w' = uuidCounter w
     \<and> initPanelCalls w' = Suc (initPanelCalls w) \<and> initialState w' = initialState w
     \<and> panelContainerRef w' = panelContainerRef w \<and> pauseTokens w' = pauseTokens w"
  by (auto simp add: beginInit_def runCleanup_def cleanupPanel_def setPublishers_def
        setSubscriptions_def logWrite_def Let_def split: option.splits if_splits)

lemma initEffect_keeps:
  assumes "initEffect irsb ip w = Inr w'"
  shows "invocations w' = invocations w \<and> renderingRef w' = renderingRef w
     \<and> panelId w' = panelId w \<and> buildRenderState w' = irsb
     \<and> watchedFields w \<subseteq> watchedFields w' \<and> uuidCounter w' = uuidCounter w
     \<and> initPanelCalls w' = Suc (initPanelCalls w) \<and> initialState w' = initialState w"
proof -
  from assms obtain w1 w2 where b: "beginInit irsb w = Inr w1"
    and c: "callAll ip w1 = Inr w2" and e: "w' = w2\<lparr>mountedPanelId := Some (panelId w2)\<rparr>"
    by (auto simp add: initEffect_def split: sum.splits)
  from beginInit_keeps [OF b] callAll_keeps [OF c] e show ?thesis by auto
qed

lemma configUpdateEffect_keeps:
  "invocations (configUpdateEffect c w) = invocations w"
  "renderingRef (configUpdateEffect c w) = renderingRef w"
  by (simp_all add: configUpdateEffect_def uuid_def Let_def)

lemma lockConsistent_step: "lockConsistent w \<Longrightarrow> step irsb e w = Inr w' \<Longrightarrow> lockConsistent w'"
proof (cases e)
  case (RenderEffect fr)
  assume "lockConsistent w" "step irsb e w = Inr w'"
  with RenderEffect show ?thesis using lockConsistent_renderCycle by auto
next
  case (DoneCallback k)
  assume "lockConsistent w" "step irsb e w = Inr w'"
  with DoneCallback show ?thesis using lockConsistent_renderDone by auto
next
  case (ContextCall c)
  assume "lockConsistent w" "step irsb e w = Inr w'"
  with ContextCall callContext_keeps [of c w w'] show ?thesis
    by (simp add: lockConsistent_def inFlight_def)
next
  case (ConfigEffect c)
  assume "lockConsistent w" "step irsb e w = Inr w'"
  with ConfigEffect show ?thesis
    by (auto simp add: lockConsistent_def inFlight_def configUpdateEffect_keeps)
next
  case (InitEffect ip)
  assume "lockConsistent w" "step irsb e w = Inr w'"
  with InitEffect initEffect_keeps [of irsb ip w w'] show ?thesis
    by (simp add: lockConsistent_def inFlight_def)
qed

lemma settled_step: "settled k p w \<Longrightarrow> step irsb e w = Inr w' \<Longrightarrow> settled k p w'"
proof (cases e)
  case (RenderEffect fr)
  assume "settled k p w" "step irsb e w = Inr w'"
  with RenderEffect show ?thesis using settled_renderCycle by auto
next
  case (DoneCallback j)
  assume "settled k p w" "step irsb e w = Inr w'"
  with DoneCallback show ?thesis using settled_renderDone by auto
next
  case (ContextCall c)
  assume "settled k p w" "step irsb e w = Inr w'"
  with ContextCall callContext_keeps [of c w w'] show ?thesis
    by (simp add: settled_def)
next
  case (ConfigEffect c)
  assume "settled k p w" "step irsb e w = Inr w'"
  with ConfigEffect show ?thesis
    by (auto simp add: settled_def configUpdateEffect_keeps)
next
  case (InitEffect ip)
  assume "settled k p w" "step irsb e w = Inr w'"
  with InitEffect initEffect_keeps [of irsb ip w w'] show ?thesis
    by (simp add: settled_def)
qed

lemma lockConsistent_run: "lockConsistent w \<Longrightarrow> run irsb es w = Inr w' \<Longrightarrow> lockConsistent w'"
proof (induction es arbitrary: w)
  case Nil
  then show ?case by simp
next
  case (Cons e es)
  then obtain w1 where s: "step irsb e w = Inr w1" and r: "run irsb es w1 = Inr w'"
    by (auto split: sum.splits)
  from Cons.IH [OF lockConsistent_step [OF Cons.prems(1) s] r] show ?case .
qed

lemma settled_run: "settled k p w \<Longrightarrow> run irsb es w = Inr w' \<Longrightarrow> settled k p w'"
proof (induction es arbitrary: w)
  case Nil
  then show ?case by simp
next
  case (Cons e es)
  then obtain w1 where s: "step irsb e w = Inr w1" and r: "run irsb es w1 = Inr w'"
    by (auto split: sum.splits)
  from Cons.IH [OF settled_step [OF Cons.prems(1) s] r] show ?case .
qed

lemma lockConsistent_mount: "lockConsistent (mountAdapter config irsb env)"
  by (simp add: lockConsistent_def inFlight_def mountAdapter_def uuid_def)


subsection \<open>Frames while the lock is held\<close>

lemma locked_renderCycle:
  "renderingRef w \<Longrightarrow>
   invocations (renderCycle fr w) = invocations w \<and> renderingRef (renderCycle fr w)
   \<and> error (renderCycle fr w) = error w \<and> pauseTokens (renderCycle fr w) = pauseTokens w"
  by (simp add: renderCycle_cases)

lemma locked_frames:
  "renderingRef w \<Longrightarrow>
   invocations (fold renderCycle frs w) = invocations w \<and> renderingRef (fold renderCycle frs w)
   \<and> error (fold renderCycle frs w) = error w \<and> pauseTokens (fold renderCycle frs w) = pauseTokens w"
proof (induction frs arbitrary: w)
  case Nil
  then show ?case by simp
next
  case (Cons fr frs)
  from locked_renderCycle [OF Cons.prems, of fr] Cons.IH [of "renderCycle fr w"]
  show ?case by simp
qed

subsection \<open>The claims about the render cycle\<close>

text \<open>
  C1. In every state the adapter reaches from its mount, by any sequence of effects,
  completion callbacks and context calls, at most one call of the render function is in
  flight, and the lock is held exactly when there is one. A frame for which the builder
  produces a render state while the lock is held sets the slow-render flag and makes no
  call and takes no pause token. Once the completion callback of the outstanding call
  has been called the lock is free, and the next frame with a render state calls the
  render function with it and clears the slow-render flag.
\<close>

theorem single_render_in_flight:
  assumes "run irsb es (mountAdapter config irsb env) = Inr w"
  shows "inFlight w \<le> 1
    \<and> renderingRef w = (inFlight w = 1)
    \<and> (renderFn w = Some f
         \<and> fst (callBuilder (buildRenderState w) (builderInput fr w)) = Some rs
         \<and> renderingRef w \<longrightarrow>
           slowRender (renderCycle fr w)
           \<and> invocations (renderCycle fr w) = invocations w
           \<and> pauseTokens (renderCycle fr w) = pauseTokens w
           \<and> inFlight (renderCycle fr w) = 1)
    \<and> (k < length (invocations w) \<and> \<not> doneCalled (invocations w ! k) \<longrightarrow>
           renderingRef w
           \<and> \<not> renderingRef (renderDone k w)
           \<and> inFlight (renderDone k w) = 0
           \<and> (renderFn w = Some f
                \<and> fst (callBuilder (buildRenderState w) (builderInput fr w)) = Some rs \<longrightarrow>
                  \<not> slowRender (renderCycle fr (renderDone k w))
                  \<and> length (invocations (renderCycle fr (renderDone k w)))
                      = Suc (length (invocations w))
                  \<and> renderStateArg (invocations (renderCycle fr (renderDone k w))
                                      ! length (invocations w)) = rs
                  \<and> length (pauseTokens (renderCycle fr (renderDone k w)))
                      = Suc (length (pauseTokens w))
                  \<and> inFlight (renderCycle fr (renderDone k w)) \<le> 1))"
proof -
  have lc: "lockConsistent w"
    using lockConsistent_run [OF lockConsistent_mount assms] .
  have a: "inFlight w \<le> 1" and b: "renderingRef w = (inFlight w = 1)"
    using lc by (simp_all add: lockConsistent_def)
  have c: "slowRender (renderCycle fr w) \<and> invocations (renderCycle fr w) = invocations w
           \<and> pauseTokens (renderCycle fr w) = pauseTokens w \<and> inFlight (renderCycle fr w) = 1"
    if "renderFn w = Some f"
      and "fst (callBuilder (buildRenderState w) (builderInput fr w)) = Some rs"
      and "renderingRef w"
    using that b by (simp add: renderCycle_cases inFlight_def)
  have d: "renderingRef w \<and> \<not> renderingRef (renderDone k w) \<and> inFlight (renderDone k w) = 0
           \<and> (renderFn w = Some f
                \<and> fst (callBuilder (buildRenderState w) (builderInput fr w)) = Some rs \<longrightarrow>
                  \<not> slowRender (renderCycle fr (renderDone k w))
                  \<and> length (invocations (renderCycle fr (renderDone k w)))
                      = Suc (length (invocations w))
                  \<and> renderStateArg (invocations (renderCycle fr (renderDone k w))
                                      ! length (invocations w)) = rs
                  \<and> length (pauseTokens (renderCycle fr (renderDone k w)))
                      = Suc (length (pauseTokens w))
                  \<and> inFlight (renderCycle fr (renderDone k w)) \<le> 1)"
    if k: "k < length (invocations w)" and u: "\<not> doneCalled (invocations w ! k)"
  proof -
    have pos: "0 < inFlight w" using undone_positive [OF k u] .
    with a b have r: "renderingRef w" and one: "inFlight w = 1" by auto
    have nr: "\<not> renderingRef (renderDone k w)"
      using k u by (simp add: renderDone_renderingRef)
    have z: "inFlight (renderDone k w) = 0"
      using k u one by (simp add: inFlight_renderDone)
    have lc': "lockConsistent (renderCycle fr (renderDone k w))"
      using lockConsistent_renderCycle [OF lockConsistent_renderDone [OF lc]] .
    have same: "renderFn (renderDone k w) = renderFn w"
      "buildRenderState (renderDone k w) = buildRenderState w"
      "builderInput fr (renderDone k w) = builderInput fr w"
      "length (pauseTokens (renderDone k w)) = length (pauseTokens w)"
      by (simp_all add: renderDone_def logWrite_def resumeFrame_def builderInput_def)
    have e: "\<not> slowRender (renderCycle fr (renderDone k w))
        \<and> length (invocations (renderCycle fr (renderDone k w))) = Suc (length (invocations w))
        \<and> renderStateArg (invocations (renderCycle fr (renderDone k w)) ! length (invocations w)) = rs
        \<and> length (pauseTokens (renderCycle fr (renderDone k w))) = Suc (length (pauseTokens w))"
      if "renderFn w = Some f"
        and "fst (callBuilder (buildRenderState w) (builderInput fr w)) = Some rs"
      using that nr same
      by (simp add: renderCycle_cases [of fr "renderDone k w"] invokeRender_closed
            renderDone_length nth_append)
    from lc' have "inFlight (renderCycle fr (renderDone k w)) \<le> 1"
      by (simp add: lockConsistent_def)
    with r nr z e show ?thesis by blast
  qed
  from a b c d show ?thesis by blast
qed

theorem single_render_in_flight_witness:
  "run frameBuilder exampleEvents exampleMounted = Inr exampleRunning
   \<and> inFlight exampleRunning = 1
   \<and> slowRender (renderCycle (exampleFrame (JStr ''m2'')) exampleRunning)
   \<and> invocations (renderCycle (exampleFrame (JStr ''m2'')) exampleRunning)
       = invocations exampleRunning
   \<and> \<not> renderingRef (renderDone 0 exampleRunning)
   \<and> \<not> slowRender (renderCycle (exampleFrame (JStr ''m2'')) (renderDone 0 exampleRunning))
   \<and> length (invocations (renderCycle (exampleFrame (JStr ''m2'')) (renderDone 0 exampleRunning))) = 2"
proof -
  have r: "run frameBuilder exampleEvents (mountAdapter (JObj [(''mode'', JStr ''a'')]) frameBuilder exampleEnv)
             = Inr exampleRunning"
    using exampleRunning_run by (simp add: exampleMounted_def)
  have b: "fst (callBuilder (buildRenderState exampleRunning)
                  (builderInput (exampleFrame (JStr ''m2'')) exampleRunning)) = Some (JStr ''m2'')"
    by (simp add: exampleRunning_fields callBuilder_def frameBuilder_def builderInput_def
          exampleFrame_def)
  from single_render_in_flight [OF r, of pendingPanel "exampleFrame (JStr ''m2'')" "JStr ''m2''" 0]
  show ?thesis
    using b exampleRunning_run by (simp add: exampleRunning_fields)
qed

text \<open>
  C2. The completion callback is idempotent. After its first call, every further call
  for the same render invocation, directly afterwards or after any run of other events,
  changes nothing but the log, to which it adds the warning. Called any number of times
  in a row on an outstanding invocation, it resumes the pause token once and clears the
  lock once.
\<close>

theorem done_callback_idempotent:
  assumes "k < length (invocations w)"
  shows "doneCalled (invocations (renderDone k w) ! k)
    \<and> renderDone k (renderDone k w)
        = logWrite (Warn_DoneTwice (closurePanelId (invocations w ! k))) (renderDone k w)
    \<and> (\<forall>es w'. run irsb es (renderDone k w) = Inr w' \<longrightarrow>
          renderDone k w' = logWrite (Warn_DoneTwice (closurePanelId (invocations w ! k))) w')
    \<and> (\<not> doneCalled (invocations w ! k)
         \<and> resumeToken (invocations w ! k) < length (pauseTokens w) \<longrightarrow>
          resumed (pauseTokens ((renderDone k ^^ Suc n) w) ! resumeToken (invocations w ! k))
            = Suc (resumed (pauseTokens w ! resumeToken (invocations w ! k)))
          \<and> \<not> renderingRef ((renderDone k ^^ Suc n) w)
          \<and> inFlight ((renderDone k ^^ Suc n) w) = inFlight w - 1)"
proof -
  let ?p = "closurePanelId (invocations w ! k)"
  let ?t = "resumeToken (invocations w ! k)"
  have s: "settled k ?p (renderDone k w)"
    using assms
    by (simp add: settled_def renderDone_length renderDone_sets_flag renderDone_keeps_closure)
  have later: "renderDone k w' = logWrite (Warn_DoneTwice ?p) w'"
    if "run irsb es (renderDone k w) = Inr w'" for es w'
    using settled_run [OF s that] renderDone_called [of k w'] by (simp add: settled_def)
  have twice: "renderDone k (renderDone k w) = logWrite (Warn_DoneTwice ?p) (renderDone k w)"
    using s renderDone_called [of k "renderDone k w"] by (simp add: settled_def)
  have once: "resumed (pauseTokens ((renderDone k ^^ Suc n) w) ! ?t) = Suc (resumed (pauseTokens w ! ?t))
          \<and> \<not> renderingRef ((renderDone k ^^ Suc n) w)
          \<and> inFlight ((renderDone k ^^ Suc n) w) = inFlight w - 1"
    if "\<not> doneCalled (invocations w ! k)" and "?t < length (pauseTokens w)"
  proof -
    have "(renderDone k ^^ Suc n) w = (renderDone k w)\<lparr>logged := logged (renderDone k w) @ replicate n (Warn_DoneTwice ?p)\<rparr>"
      unfolding renderDone_funpow [OF assms] logWrite_funpow ..
    moreover have "resumed (pauseTokens (renderDone k w) ! ?t) = Suc (resumed (pauseTokens w ! ?t))"
      using assms that by (simp add: renderDone_def resumeFrame_def)
    moreover have "\<not> renderingRef (renderDone k w)"
      using assms that by (simp add: renderDone_renderingRef)
    moreover have "inFlight (renderDone k w) = inFlight w - 1"
      using assms that by (simp add: inFlight_renderDone)
    ultimately show ?thesis by (simp add: inFlight_def)
  qed
  from s twice later once show ?thesis by (simp add: settled_def)
qed

theorem done_callback_idempotent_witness:
  "0 < length (invocations exampleRunning)
   \<and> renderDone 0 (renderDone 0 exampleRunning)
       = logWrite (Warn_DoneTwice 0) (renderDone 0 exampleRunning)
   \<and> resumed (pauseTokens ((renderDone 0 ^^ Suc 1) exampleRunning) ! 0) = 1
   \<and> \<not> renderingRef ((renderDone 0 ^^ Suc 1) exampleRunning)"
proof -
  have h: "0 < length (invocations exampleRunning)"
    by (simp add: exampleRunning_fields)
  note t = done_callback_idempotent [OF h, of frameBuilder 1]
  have a: "renderDone 0 (renderDone 0 exampleRunning)
             = logWrite (Warn_DoneTwice 0) (renderDone 0 exampleRunning)"
    using t by (simp add: exampleRunning_fields del: funpow.simps)
  have b: "resumed (pauseTokens ((renderDone 0 ^^ Suc 1) exampleRunning) ! 0) = 1
           \<and> \<not> renderingRef ((renderDone 0 ^^ Suc 1) exampleRunning)"
    using t by (simp add: exampleRunning_fields del: funpow.simps)
  from h a b show ?thesis by blast
qed

text \<open>
  C9. When the builder returns nothing the frame is skipped: no call of the render
  function, no pause token, and the slow-render flag, the error and the lock are as
  before; nothing but the builder's own memory has changed.
\<close>

theorem skipped_frame_changes_nothing:
  assumes "fst (callBuilder (buildRenderState w) (builderInput fr w)) = None"
  shows "invocations (renderCycle fr w) = invocations w
    \<and> pauseTokens (renderCycle fr w) = pauseTokens w
    \<and> slowRender (renderCycle fr w) = slowRender w
    \<and> error (renderCycle fr w) = error w
    \<and> renderingRef (renderCycle fr w) = renderingRef w
    \<and> renderCycle fr w = w\<lparr>buildRenderState := buildRenderState (renderCycle fr w)\<rparr>"
  using assms by (simp add: renderCycle_cases)

theorem skipped_frame_changes_nothing_witness:
  "fst (callBuilder (buildRenderState exampleIdle)
          (builderInput (exampleFrame JUndefined) exampleIdle)) = None
   \<and> invocations (renderCycle (exampleFrame JUndefined) exampleIdle) = invocations exampleIdle
   \<and> pauseTokens (renderCycle (exampleFrame JUndefined) exampleIdle) = pauseTokens exampleIdle
   \<and> renderingRef (renderCycle (exampleFrame JUndefined) exampleIdle) = False"
proof -
  have h: "fst (callBuilder (buildRenderState exampleIdle)
                  (builderInput (exampleFrame JUndefined) exampleIdle)) = None"
    by (simp add: exampleIdle_fields callBuilder_def frameBuilder_def builderInput_def
          exampleFrame_def)
  from skipped_frame_changes_nothing [OF h] h show ?thesis
    by (simp add: exampleIdle_fields)
qed

text \<open>
  A render function that throws a truthy value, an error object for one: the effect
  ends normally with the value stored, the next body of the component throws it, one
  call was made, and no later commit reaches the render cycle, whether or not the
  completion callback was called before the throw.
\<close>

lemma render_exception_captured:
  assumes "renderFn w = Some f"
      and "fst (callBuilder (buildRenderState w) (builderInput fr w)) = Some rs"
      and "\<not> renderingRef w"
      and "thrown (f rs) = Some e"
      and "truthy e"
  shows "step irsb (RenderEffect fr) w = Inr (renderCycle fr w)
    \<and> error (renderCycle fr w) = e
    \<and> renderPass (renderCycle fr w) = Inl e
    \<and> invocations (renderCycle fr w) = invocations w @
         [\<lparr>renderStateArg = rs, doneCalled = (doneCalls (f rs) \<noteq> 0),
           resumeToken = length (pauseTokens w), closurePanelId = panelId w\<rparr>]
    \<and> (\<forall>fr'. commitFrame fr' (renderCycle fr w) = Inl e)"
proof -
  have c: "renderCycle fr w = invokeRender f rs
             (w\<lparr>buildRenderState := snd (callBuilder (buildRenderState w) (builderInput fr w))\<rparr>)"
    using assms by (simp add: renderCycle_cases)
  have err: "error (renderCycle fr w) = e"
    using assms unfolding c by (simp add: invokeRender_closed)
  have inv: "invocations (renderCycle fr w) = invocations w @
         [\<lparr>renderStateArg = rs, doneCalled = (doneCalls (f rs) \<noteq> 0),
           resumeToken = length (pauseTokens w), closurePanelId = panelId w\<rparr>]"
    unfolding c by (simp add: invokeRender_closed)
  have pass: "renderPass (renderCycle fr w) = Inl e"
    using err assms(5) by (simp add: renderPass_def)
  from err inv pass show ?thesis by (simp add: commitFrame_def)
qed

lemma render_exception_captured_example:
  "renderFn exampleCrashing = Some crashingPanel
   \<and> \<not> renderingRef exampleCrashing
   \<and> thrown (crashingPanel (JStr ''m2'')) = Some (Obj_Error (Error ''render failed''))
   \<and> renderPass (renderCycle (exampleFrame (JStr ''m2'')) exampleCrashing)
       = Inl (Obj_Error (Error ''render failed''))
   \<and> length (invocations (renderCycle (exampleFrame (JStr ''m2'')) exampleCrashing)) = 2
   \<and> commitFrame (exampleFrame (JStr ''m3'')) (renderCycle (exampleFrame (JStr ''m2'')) exampleCrashing)
       = Inl (Obj_Error (Error ''render failed''))"
proof -
  have f: "renderFn exampleCrashing = Some crashingPanel"
    by (simp add: exampleCrashing_def)
  have b: "fst (callBuilder (buildRenderState exampleCrashing)
                  (builderInput (exampleFrame (JStr ''m2'')) exampleCrashing)) = Some (JStr ''m2'')"
    by (simp add: exampleCrashing_def exampleIdle_fields callBuilder_def frameBuilder_def
          builderInput_def exampleFrame_def)
  have r: "\<not> renderingRef exampleCrashing"
    by (simp add: exampleCrashing_def exampleIdle_fields)
  have t: "thrown (crashingPanel (JStr ''m2'')) = Some (Obj_Error (Error ''render failed''))"
    by (simp add: crashingPanel_def)
  have y: "truthy (Obj_Error (Error ''render failed''))"
    by simp
  have i: "length (invocations exampleCrashing) = 1"
    by (simp add: exampleCrashing_def exampleIdle_fields)
  note th = render_exception_captured [OF f b r t y, of frameBuilder]
  from th have n: "length (invocations (renderCycle (exampleFrame (JStr ''m2'')) exampleCrashing)) = 2"
    using i by simp
  from th f r t n show ?thesis by simp
qed

text \<open>
  A render function that throws a falsy value: the effect ends normally, the cell holds
  the value, and the body of the component does not throw it. When the completion
  callback was not called before the throw, the lock stays held and no later frame calls
  the render function or raises anything.
\<close>

lemma render_exception_falsy:
  assumes "renderFn w = Some f"
      and "fst (callBuilder (buildRenderState w) (builderInput fr w)) = Some rs"
      and "\<not> renderingRef w"
      and "thrown (f rs) = Some e"
      and "\<not> truthy e"
  shows "error (renderCycle fr w) = e
    \<and> renderPass (renderCycle fr w) = Inr None
    \<and> invocations (renderCycle fr w) = invocations w @
         [\<lparr>renderStateArg = rs, doneCalled = (doneCalls (f rs) \<noteq> 0),
           resumeToken = length (pauseTokens w), closurePanelId = panelId w\<rparr>]
    \<and> (doneCalls (f rs) = 0 \<longrightarrow>
         renderingRef (renderCycle fr w)
         \<and> (\<forall>frs. invocations (fold renderCycle frs (renderCycle fr w))
                    = invocations (renderCycle fr w)
                  \<and> error (fold renderCycle frs (renderCycle fr w)) = e))"
proof -
  have c: "renderCycle fr w = invokeRender f rs
             (w\<lparr>buildRenderState := snd (callBuilder (buildRenderState w) (builderInput fr w))\<rparr>)"
    using assms by (simp add: renderCycle_cases)
  have err: "error (renderCycle fr w) = e"
    using assms unfolding c by (simp add: invokeRender_closed)
  have slow: "\<not> slowRender (renderCycle fr w)"
    unfolding c by (simp add: invokeRender_closed)
  have inv: "invocations (renderCycle fr w) = invocations w @
         [\<lparr>renderStateArg = rs, doneCalled = (doneCalls (f rs) \<noteq> 0),
           resumeToken = length (pauseTokens w), closurePanelId = panelId w\<rparr>]"
    unfolding c by (simp add: invokeRender_closed)
  have pass: "renderPass (renderCycle fr w) = Inr None"
    using err slow assms(5) by (simp add: renderPass_def)
  have lock: "renderingRef (renderCycle fr w)" if "doneCalls (f rs) = 0"
    using that unfolding c by (simp add: invokeRender_closed)
  have later: "invocations (fold renderCycle frs (renderCycle fr w)) = invocations (renderCycle fr w)
               \<and> error (fold renderCycle frs (renderCycle fr w)) = e"
    if "doneCalls (f rs) = 0" for frs
    using locked_frames [OF lock [OF that], of frs] err by simp
  from err inv pass lock later show ?thesis by simp
qed

lemma renderCycle_renderFn: "renderFn (renderCycle fr w) = renderFn w"
  by (simp add: renderCycle_cases invokeRender_closed)

lemma renderCycle_builder:
  "renderFn w = Some f \<Longrightarrow>
   buildRenderState (renderCycle fr w)
     = snd (callBuilder (buildRenderState w) (builderInput fr w))"
  by (simp add: renderCycle_cases invokeRender_closed)

lemma exampleThrowingUndefined_fields:
  "renderFn exampleThrowingUndefined = Some undefinedThrowingPanel"
  "\<not> renderingRef exampleThrowingUndefined"
  "length (invocations exampleThrowingUndefined) = 1"
  "fst (callBuilder (buildRenderState exampleThrowingUndefined)
          (builderInput (exampleFrame (JStr ''m2'')) exampleThrowingUndefined)) = Some (JStr ''m2'')"
  by (simp_all add: exampleThrowingUndefined_def exampleIdle_fields callBuilder_def
        frameBuilder_def builderInput_def exampleFrame_def)

text \<open>
  C7. The claim: when the render function throws during an invocation, the error is
  captured, it is raised again on the adapter's next render pass, and the invocation is
  not retried. The code captures whatever is thrown and raises it again only when it is
  truthy. Here the render function throws \<^verbatim>\<open>undefined\<close>: the call is made and the
  value is caught, the cell is as if nothing had been thrown, the next render pass
  throws nothing, the lock stays held, and the frame after that only sets the
  slow-render flag. The same adapter with a render function that throws an error
  object raises it on the next render pass.
\<close>

theorem render_throw_undefined_not_reraised:
  "renderFn exampleThrowingUndefined = Some undefinedThrowingPanel
   \<and> thrown (undefinedThrowingPanel (JStr ''m2'')) = Some (Plain JUndefined)
   \<and> length (invocations (renderCycle (exampleFrame (JStr ''m2'')) exampleThrowingUndefined))
       = Suc (length (invocations exampleThrowingUndefined))
   \<and> error (renderCycle (exampleFrame (JStr ''m2'')) exampleThrowingUndefined) = Plain JUndefined
   \<and> renderPass (renderCycle (exampleFrame (JStr ''m2'')) exampleThrowingUndefined) = Inr None
   \<and> renderingRef (renderCycle (exampleFrame (JStr ''m2'')) exampleThrowingUndefined)
   \<and> commitFrame (exampleFrame (JStr ''m3''))
         (renderCycle (exampleFrame (JStr ''m2'')) exampleThrowingUndefined)
       = Inr (renderCycle (exampleFrame (JStr ''m3''))
                (renderCycle (exampleFrame (JStr ''m2'')) exampleThrowingUndefined))
   \<and> invocations (renderCycle (exampleFrame (JStr ''m3''))
                    (renderCycle (exampleFrame (JStr ''m2'')) exampleThrowingUndefined))
       = invocations (renderCycle (exampleFrame (JStr ''m2'')) exampleThrowingUndefined)
   \<and> renderPass (renderCycle (exampleFrame (JStr ''m3''))
                   (renderCycle (exampleFrame (JStr ''m2'')) exampleThrowingUndefined))
       = Inr (Some ''orange'')
   \<and> renderPass (renderCycle (exampleFrame (JStr ''m2'')) exampleCrashing)
       = Inl (Obj_Error (Error ''render failed''))"
proof -
  let ?x = "renderCycle (exampleFrame (JStr ''m2'')) exampleThrowingUndefined"
  let ?y = "renderCycle (exampleFrame (JStr ''m3'')) ?x"
  have t: "thrown (undefinedThrowingPanel (JStr ''m2'')) = Some (Plain JUndefined)"
    and d: "doneCalls (undefinedThrowingPanel (JStr ''m2'')) = 0"
    by (simp_all add: undefinedThrowingPanel_def)
  have n: "\<not> truthy (Plain JUndefined)" by simp
  note th = render_exception_falsy
              [OF exampleThrowingUndefined_fields(1) exampleThrowingUndefined_fields(4)
                  exampleThrowingUndefined_fields(2) t n]
  from th have e: "error ?x = Plain JUndefined" and p: "renderPass ?x = Inr None"
    and l: "length (invocations ?x) = Suc (length (invocations exampleThrowingUndefined))"
    by simp_all
  from th d have k: "renderingRef ?x" by simp
  have x1: "renderFn ?x = Some undefinedThrowingPanel"
    by (simp add: renderCycle_renderFn exampleThrowingUndefined_fields)
  have "buildRenderState ?x
          = snd (callBuilder (buildRenderState exampleThrowingUndefined)
                   (builderInput (exampleFrame (JStr ''m2'')) exampleThrowingUndefined))"
    by (rule renderCycle_builder [OF exampleThrowingUndefined_fields(1)])
  also have "\<dots> = frameBuilder"
    by (simp add: exampleThrowingUndefined_def exampleIdle_fields callBuilder_def
          frameBuilder_def builderInput_def exampleFrame_def)
  finally have x2: "buildRenderState ?x = frameBuilder" .
  note x = x1 x2
  have b: "fst (callBuilder (buildRenderState ?x) (builderInput (exampleFrame (JStr ''m3'')) ?x))
             = Some (JStr ''m3'')"
    unfolding x2
    by (simp add: callBuilder_def frameBuilder_def builderInput_def exampleFrame_def)
  have y: "invocations ?y = invocations ?x" "slowRender ?y" "error ?y = error ?x"
    using k b x by (simp_all add: renderCycle_cases [of _ ?x])
  have py: "renderPass ?y = Inr (Some ''orange'')"
    using y e by (simp add: renderPass_def)
  have c: "commitFrame (exampleFrame (JStr ''m3'')) ?x = Inr ?y"
    using p by (simp add: commitFrame_def)
  have crash: "renderPass (renderCycle (exampleFrame (JStr ''m2'')) exampleCrashing)
                 = Inl (Obj_Error (Error ''render failed''))"
    using render_exception_captured_example by simp
  from exampleThrowingUndefined_fields(1) t l e p k c y(1) py crash show ?thesis by simp
qed

subsection \<open>The claims about the extension context\<close>

text \<open>
  C6. \<^verbatim>\<open>setPreviewTime(undefined)\<close> clears the hover value the adapter holds, in
  particular the one an earlier \<^verbatim>\<open>setPreviewTime(t)\<close> has set, and touches nothing
  else; \<^verbatim>\<open>setPreviewTime(t)\<close> without a known start time changes nothing.
\<close>

theorem setPreviewTime_clear_and_noop:
  "(activeDataStartTime w = None \<longrightarrow> setPreviewTime (Some t) w = w)
   \<and> (activeDataStartTime w \<noteq> None \<longrightarrow>
        hoverStore (setPreviewTime (Some t) w) \<noteq> None
        \<and> hoverStore (setPreviewTime None (setPreviewTime (Some t) w)) = None)
   \<and> ((\<forall>v. hoverStore w = Some v \<longrightarrow> componentId v = ''PanelExtensionAdatper'') \<longrightarrow>
        hoverStore (setPreviewTime None w) = None)
   \<and> setPreviewTime None w = w\<lparr>hoverStore := hoverStore (setPreviewTime None w)\<rparr>"
  by (auto simp add: setPreviewTime_def clearHoverValue_def setHoverValue_def
        split: option.splits)

theorem setPreviewTime_clear_and_noop_witness:
  "activeDataStartTime exampleNoStart = None
   \<and> setPreviewTime (Some 105) exampleNoStart = exampleNoStart
   \<and> activeDataStartTime exampleEnv \<noteq> None
   \<and> hoverStore (setPreviewTime (Some 105) exampleEnv)
       = Some \<lparr>hvType = ''PLAYBACK_SECONDS'', componentId = ''PanelExtensionAdatper'', hvValue = 5\<rparr>
   \<and> hoverStore (setPreviewTime None (setPreviewTime (Some 105) exampleEnv)) = None"
proof -
  have a: "activeDataStartTime exampleNoStart = None"
    by (simp add: exampleNoStart_def)
  have b: "activeDataStartTime exampleEnv \<noteq> None"
    by (simp add: exampleEnv_def)
  have c: "hoverStore (setPreviewTime (Some 105) exampleEnv)
       = Some \<lparr>hvType = ''PLAYBACK_SECONDS'', componentId = ''PanelExtensionAdatper'', hvValue = 5\<rparr>"
    by (simp add: setPreviewTime_def setHoverValue_def exampleEnv_def toSec_def)
  from setPreviewTime_clear_and_noop [of exampleNoStart 105]
       setPreviewTime_clear_and_noop [of exampleEnv 105] a b c
  show ?thesis by simp
qed

text \<open>
  C8. \<^verbatim>\<open>addPanel\<close> with position \<^verbatim>\<open>"sibling"\<close> forwards one open-sibling-panel request;
  with any other position it fails at once with an error that names the position, and
  no state is returned.
\<close>

theorem addPanel_sibling_only:
  "addPanel ''sibling'' ty upd getState w
     = Inr (w\<lparr>siblingPanels := siblingPanels w @
              [\<lparr>panelType = ty, updateIfExists = upd, siblingConfigCreator = getState\<rparr>]\<rparr>)
   \<and> (position \<noteq> ''sibling'' \<longrightarrow>
        addPanel position ty upd getState w
          = Inl (Error (''Unsupported position for addPanel: '' @ position)))"
  by (simp add: addPanel_def openSiblingPanel_def assertNever_def)

theorem addPanel_sibling_only_witness:
  "''tab'' \<noteq> ''sibling''
   \<and> addPanel ''tab'' ''3D'' True (\<lambda>c. c) exampleEnv
       = Inl (Error ''Unsupported position for addPanel: tab'')
   \<and> map_sum id (\<lambda>w. length (siblingPanels w)) (addPanel ''sibling'' ''3D'' True (\<lambda>c. c) exampleEnv)
       = Inr 1"
proof -
  have h: "''tab'' \<noteq> ''sibling''" by simp
  from addPanel_sibling_only [of "''3D''" True "\<lambda>c. c" exampleEnv "''tab''"] h
  show ?thesis by (simp add: exampleEnv_def)
qed

lemma mapDelete_mapSet: "mapDelete k (mapSet k v m) = mapDelete k m"
  by (induction m) simp_all

lemma mapDelete_absent: "k \<notin> fst ` set m \<Longrightarrow> mapDelete k m = m"
  by (induction m) auto

lemma advertise_unadvertise_fields:
  "advertisementsRef (unadvertiseFn t (advertiseFn t d opts w)) = mapDelete t (advertisementsRef w)"
  "publishersById (unadvertiseFn t (advertiseFn t d opts w))
     = (publishersById w)(panelId w := mapValues (mapDelete t (advertisementsRef w)))"
  by (simp_all add: unadvertiseFn_def advertiseFn_def setPublishers_def Let_def mapDelete_mapSet)

text \<open>
  C5, as amended. With the advertise capability, \<^verbatim>\<open>advertise\<close> of a topic followed by
  \<^verbatim>\<open>unadvertise\<close> of the same topic leaves, as the publisher registration of the panel
  id, the adapter's advertisements without that topic. The registration, and the
  advertisement map, are as before the two calls when the topic was not advertised
  before and the registration held the adapter's advertisements.
\<close>

theorem advertise_then_unadvertise:
  assumes "PlayerCapabilities_advertise \<in> set (capabilities w)"
  shows "callAll [Advertise t d opts, Unadvertise t] w
           = Inr (unadvertiseFn t (advertiseFn t d opts w))
    \<and> publishersById (unadvertiseFn t (advertiseFn t d opts w)) (panelId w)
        = mapValues (mapDelete t (advertisementsRef w))
    \<and> (t \<notin> fst ` set (advertisementsRef w)
         \<and> publishersById w (panelId w) = mapValues (advertisementsRef w) \<longrightarrow>
          publishersById (unadvertiseFn t (advertiseFn t d opts w)) = publishersById w
          \<and> advertisementsRef (unadvertiseFn t (advertiseFn t d opts w)) = advertisementsRef w)"
proof -
  have cap: "capabilities (advertiseFn t d opts w) = capabilities w"
    by (simp add: advertiseFn_def setPublishers_def Let_def)
  have calls: "callAll [Advertise t d opts, Unadvertise t] w
           = Inr (unadvertiseFn t (advertiseFn t d opts w))"
    using assms by (simp add: advertise_def unadvertise_def cap)
  have same: "publishersById (unadvertiseFn t (advertiseFn t d opts w)) = publishersById w
          \<and> advertisementsRef (unadvertiseFn t (advertiseFn t d opts w)) = advertisementsRef w"
    if "t \<notin> fst ` set (advertisementsRef w)"
      and "publishersById w (panelId w) = mapValues (advertisementsRef w)"
    using that by (auto simp add: advertise_unadvertise_fields mapDelete_absent)
  have after: "publishersById (unadvertiseFn t (advertiseFn t d opts w)) (panelId w)
        = mapValues (mapDelete t (advertisementsRef w))"
    by (simp add: advertise_unadvertise_fields)
  from calls after same show ?thesis by blast
qed

theorem advertise_then_unadvertise_witness:
  "PlayerCapabilities_advertise \<in> set (capabilities exampleAdvertised)
   \<and> ''/pose'' \<notin> fst ` set (advertisementsRef exampleAdvertised)
   \<and> publishersById exampleAdvertised (panelId exampleAdvertised)
       = mapValues (advertisementsRef exampleAdvertised)
   \<and> publishersById (unadvertiseFn ''/pose'' (advertiseFn ''/pose'' ''Pose'' JUndefined exampleAdvertised))
       = publishersById exampleAdvertised"
proof -
  have c: "PlayerCapabilities_advertise \<in> set (capabilities exampleAdvertised)"
    by (simp add: exampleAdvertised_fields PlayerCapabilities_advertise_def)
  have a: "''/pose'' \<notin> fst ` set (advertisementsRef exampleAdvertised)"
    by (simp add: exampleAdvertised_fields)
  have p: "publishersById exampleAdvertised (panelId exampleAdvertised)
             = mapValues (advertisementsRef exampleAdvertised)"
    by (simp add: exampleAdvertised_fields mapValues_def)
  from advertise_then_unadvertise [OF c, of "''/pose''" "''Pose''" JUndefined] a p c
  show ?thesis by blast
qed

text \<open>C5 as stated fails for a topic that is advertised already: the earlier
  advertisement is gone afterwards.\<close>

theorem advertise_unadvertise_counterexample:
  "advertise exampleAdvertised = Some advertiseFn
   \<and> unadvertise (advertiseFn ''/cmd'' ''Pose'' JUndefined exampleAdvertised) = Some unadvertiseFn
   \<and> publishersById exampleAdvertised (panelId exampleAdvertised)
       = [\<lparr>advTopic = ''/cmd'', advDatatype = ''Twist'', advOptions = JUndefined\<rparr>]
   \<and> publishersById (unadvertiseFn ''/cmd'' (advertiseFn ''/cmd'' ''Pose'' JUndefined exampleAdvertised))
        (panelId exampleAdvertised) = []
   \<and> publishersById (unadvertiseFn ''/cmd'' (advertiseFn ''/cmd'' ''Pose'' JUndefined exampleAdvertised))
        (panelId exampleAdvertised)
       \<noteq> publishersById exampleAdvertised (panelId exampleAdvertised)"
proof -
  have cap: "capabilities (advertiseFn ''/cmd'' ''Pose'' JUndefined exampleAdvertised)
               = capabilities exampleAdvertised"
    by (simp add: advertiseFn_def setPublishers_def Let_def)
  have a: "advertise exampleAdvertised = Some advertiseFn"
    by (simp add: advertise_def exampleAdvertised_fields PlayerCapabilities_advertise_def)
  have u: "unadvertise (advertiseFn ''/cmd'' ''Pose'' JUndefined exampleAdvertised) = Some unadvertiseFn"
    by (simp add: unadvertise_def cap exampleAdvertised_fields PlayerCapabilities_advertise_def)
  have e: "publishersById (unadvertiseFn ''/cmd'' (advertiseFn ''/cmd'' ''Pose'' JUndefined exampleAdvertised))
             (panelId exampleAdvertised) = []"
    by (simp add: advertise_unadvertise_fields exampleAdvertised_fields mapValues_def)
  from a u e show ?thesis
    by (simp add: exampleAdvertised_fields)
qed

text \<open>The advertisement map outlives a change of panel id, while the registration of the
  new id starts empty: there the two calls bring the old advertisements back.\<close>

lemma advertise_unadvertise_after_reset:
  "panelId exampleAfterReset = 1
   \<and> publishersById exampleAfterReset 1 = []
   \<and> ''/pose'' \<notin> fst ` set (advertisementsRef exampleAfterReset)
   \<and> publishersById (unadvertiseFn ''/pose'' (advertiseFn ''/pose'' ''Pose'' JUndefined exampleAfterReset)) 1
       = [\<lparr>advTopic = ''/cmd'', advDatatype = ''Twist'', advOptions = JUndefined\<rparr>]"
proof -
  have r: "exampleAfterReset =
      exampleAdvertised\<lparr>initialState := JObj [], uuidCounter := 2, panelId := 1,
        renderFn := None, buildRenderState := frameBuilder,
        logged := [Info_InitPanel 1], initPanelCalls := 1, mountedPanelId := Some 1\<rparr>"
    unfolding exampleAfterReset_def
    by (simp add: configChanged_def renderPass_def configUpdateEffect_def isEqualEmptyObject_def
          uuid_def runCleanup_def renderCycle_def initEffect_def beginInit_def logWrite_def
          Let_def exampleAdvertised_fields exampleAdvertised_def advertiseFn_def
          setPublishers_def exampleMounted_def mountAdapter_def exampleEnv_def)
  show ?thesis
    unfolding r
    by (simp add: mapValues_def exampleAdvertised_def advertiseFn_def unadvertiseFn_def
          setPublishers_def exampleMounted_def mountAdapter_def uuid_def exampleEnv_def Let_def)
qed

subsection \<open>The claim about the reset\<close>

lemma runCleanup_keeps:
  "panelId (runCleanup w) = panelId w" "initialState (runCleanup w) = initialState w"
  "watchedFields (runCleanup w) = watchedFields w" "initPanelCalls (runCleanup w) = initPanelCalls w"
  "panelContainerRef (runCleanup w) = panelContainerRef w" "uuidCounter (runCleanup w) = uuidCounter w"
  "mountedPanelId (runCleanup w) = None"
  by (simp_all add: runCleanup_def cleanupPanel_def setPublishers_def setSubscriptions_def
        split: option.split)

lemma renderCycle_keeps:
  "panelId (renderCycle fr w) = panelId w" "initialState (renderCycle fr w) = initialState w"
  "watchedFields (renderCycle fr w) = watchedFields w"
  "initPanelCalls (renderCycle fr w) = initPanelCalls w"
  "panelContainerRef (renderCycle fr w) = panelContainerRef w"
  "uuidCounter (renderCycle fr w) = uuidCounter w"
  "mountedPanelId (renderCycle fr w) = mountedPanelId w"
  by (simp_all add: renderCycle_cases invokeRender_closed)

text \<open>
  What the reset does: when the config becomes the empty object and the adapter has not
  crashed, a new panel identifier is drawn and the panel is initialized again;
  \<^verbatim>\<open>initPanel\<close> is called once more, in a state where the render function is unset and
  the builder is a new one, and where the watched fields are those of the panel before.
  Any other config leaves the panel id alone.
\<close>

lemma config_reset_reinitializes:
  assumes "panelContainerRef w" and "panelId w < uuidCounter w" and "\<not> truthy (error w)"
  shows "(\<exists>w1. beginInit irsb (renderCycle fr (runCleanup (configUpdateEffect (JObj []) w))) = Inr w1
            \<and> configChanged irsb initPanel fr (JObj []) w
                = (case callAll initPanel w1 of
                     Inl e \<Rightarrow> Inl (Obj_Error e)
                   | Inr w2 \<Rightarrow> Inr (w2\<lparr>mountedPanelId := Some (panelId w2)\<rparr>))
            \<and> panelId w1 = uuidCounter w \<and> panelId w1 \<noteq> panelId w
            \<and> initialState w1 = JObj [] \<and> renderFn w1 = None
            \<and> buildRenderState w1 = irsb
            \<and> initPanelCalls w1 = Suc (initPanelCalls w)
            \<and> watchedFields w1 = watchedFields w)
    \<and> (\<forall>w'. configChanged irsb initPanel fr (JObj []) w = Inr w' \<longrightarrow>
            panelId w' = uuidCounter w \<and> panelId w' \<noteq> panelId w
            \<and> initialState w' = JObj [] \<and> buildRenderState w' = irsb
            \<and> initPanelCalls w' = Suc (initPanelCalls w)
            \<and> watchedFields w \<subseteq> watchedFields w')
    \<and> (config \<noteq> JObj [] \<longrightarrow>
          configChanged irsb initPanel fr config w = Inr (w\<lparr>initialState := config\<rparr>))"
proof -
  let ?u = "configUpdateEffect (JObj []) w"
  let ?v = "renderCycle fr (runCleanup ?u)"
  have pass: "renderPass w = Inr (if slowRender w then Some ''orange'' else None)"
    using assms(3) by (simp add: renderPass_def)
  have u: "panelId ?u = uuidCounter w" "initialState ?u = JObj []"
    "watchedFields ?u = watchedFields w" "initPanelCalls ?u = initPanelCalls w"
    "panelContainerRef ?u = panelContainerRef w"
    by (simp_all add: configUpdateEffect_def isEqualEmptyObject_def uuid_def Let_def)
  have v: "panelId ?v = uuidCounter w" "initialState ?v = JObj []"
    "watchedFields ?v = watchedFields w" "initPanelCalls ?v = initPanelCalls w"
    "panelContainerRef ?v" "mountedPanelId ?v = None"
    using u assms(1) by (simp_all add: renderCycle_keeps runCleanup_keeps)
  have neq: "panelId ?u \<noteq> panelId w" using assms(2) u(1) by simp
  have cc: "configChanged irsb initPanel fr (JObj []) w
              = map_sum Obj_Error id (initEffect irsb initPanel ?v)"
    using neq by (simp add: configChanged_def pass Let_def)
  have "panelContainerRef (runCleanup ?v)"
    using v by (simp add: runCleanup_def)
  then obtain w1 where b: "beginInit irsb ?v = Inr w1"
    by (simp add: beginInit_def Let_def)
  note k = beginInit_keeps [OF b]
  have first: "beginInit irsb ?v = Inr w1
            \<and> configChanged irsb initPanel fr (JObj []) w
                = (case callAll initPanel w1 of
                     Inl e \<Rightarrow> Inl (Obj_Error e)
                   | Inr w2 \<Rightarrow> Inr (w2\<lparr>mountedPanelId := Some (panelId w2)\<rparr>))
            \<and> panelId w1 = uuidCounter w \<and> panelId w1 \<noteq> panelId w
            \<and> initialState w1 = JObj [] \<and> renderFn w1 = None
            \<and> buildRenderState w1 = irsb
            \<and> initPanelCalls w1 = Suc (initPanelCalls w)
            \<and> watchedFields w1 = watchedFields w"
    using b k v u neq by (simp add: cc initEffect_def split: sum.split)
  have second: "panelId w' = uuidCounter w \<and> panelId w' \<noteq> panelId w
            \<and> initialState w' = JObj [] \<and> buildRenderState w' = irsb
            \<and> initPanelCalls w' = Suc (initPanelCalls w)
            \<and> watchedFields w \<subseteq> watchedFields w'"
    if "configChanged irsb initPanel fr (JObj []) w = Inr w'" for w'
  proof -
    from that have "initEffect irsb initPanel ?v = Inr w'"
      unfolding cc by (cases "initEffect irsb initPanel ?v") simp_all
    from initEffect_keeps [OF this] v u neq show ?thesis by simp
  qed
  have other: "configChanged irsb initPanel fr config w = Inr (w\<lparr>initialState := config\<rparr>)"
    if "config \<noteq> JObj []"
    using that
    by (simp add: configChanged_def pass configUpdateEffect_def isEqualEmptyObject_def Let_def)
  from first second other show ?thesis by blast
qed

lemma config_reset_reinitializes_example:
  "panelContainerRef exampleRunning \<and> panelId exampleRunning < uuidCounter exampleRunning
   \<and> \<not> truthy (error exampleRunning)
   \<and> map_sum id panelId
       (configChanged frameBuilder [Watch ''topics''] (exampleFrame JUndefined) (JObj []) exampleRunning)
       = Inr 1
   \<and> map_sum id buildRenderState
       (configChanged frameBuilder [Watch ''topics''] (exampleFrame JUndefined) (JObj []) exampleRunning)
       = Inr frameBuilder
   \<and> map_sum id initPanelCalls
       (configChanged frameBuilder [Watch ''topics''] (exampleFrame JUndefined) (JObj []) exampleRunning)
       = Inr 2
   \<and> map_sum id panelId
       (configChanged frameBuilder [Watch ''topics''] (exampleFrame JUndefined)
          (JObj [(''mode'', JStr ''b'')]) exampleRunning)
       = Inr 0"
proof -
  have c: "panelContainerRef exampleRunning"
    by (simp add: exampleRunning_more)
  have p: "panelId exampleRunning < uuidCounter exampleRunning"
    by (simp add: exampleRunning_more exampleRunning_fields)
  have e: "\<not> truthy (error exampleRunning)"
    by (simp add: exampleRunning_fields)
  note t = config_reset_reinitializes
             [OF c p e, of frameBuilder "exampleFrame JUndefined" "[Watch ''topics'']"
                 "JObj [(''mode'', JStr ''b'')]"]
  from t have o: "configChanged frameBuilder [Watch ''topics''] (exampleFrame JUndefined)
                    (JObj [(''mode'', JStr ''b'')]) exampleRunning
                  = Inr (exampleRunning\<lparr>initialState := JObj [(''mode'', JStr ''b'')]\<rparr>)"
    by simp
  from t obtain w1 where
    r: "configChanged frameBuilder [Watch ''topics''] (exampleFrame JUndefined) (JObj []) exampleRunning
          = (case callAll [Watch ''topics''] w1 of
               Inl e \<Rightarrow> Inl (Obj_Error e)
             | Inr w2 \<Rightarrow> Inr (w2\<lparr>mountedPanelId := Some (panelId w2)\<rparr>))"
    and f: "panelId w1 = uuidCounter exampleRunning" "buildRenderState w1 = frameBuilder"
      "initPanelCalls w1 = Suc (initPanelCalls exampleRunning)"
    by blast
  from c p e r f o show ?thesis
    by (simp add: watch_def exampleRunning_more exampleRunning_fields)
qed

text \<open>
  C4. The claim: when the config becomes empty after having been non-empty, the adapter
  draws a new panel identifier and initializes the panel again, which resets the
  watched-field set and the render-state builder. The code draws the identifier and
  resets the render function and the builder, and leaves the watched-field set as it
  was. Here a panel has watched \<^verbatim>\<open>currentFrame\<close> under a non-empty config; the config
  becomes the empty object, and on its second initialization the panel sets a render
  function and watches nothing. Afterwards the panel id is a new one, the builder is a
  new one, and \<^verbatim>\<open>currentFrame\<close> is still watched, while an adapter that is mounted
  afresh watches nothing.
\<close>

theorem config_reset_keeps_watched_fields:
  "initialState exampleRunning = JObj [(''mode'', JStr ''a'')]
   \<and> panelId exampleRunning = 0
   \<and> watchedFields exampleRunning = {''currentFrame''}
   \<and> map_sum id initialState
       (configChanged frameBuilder [SetOnRender (Some promptPanel)] (exampleFrame JUndefined)
          (JObj []) exampleRunning) = Inr (JObj [])
   \<and> map_sum id panelId
       (configChanged frameBuilder [SetOnRender (Some promptPanel)] (exampleFrame JUndefined)
          (JObj []) exampleRunning) = Inr 1
   \<and> map_sum id buildRenderState
       (configChanged frameBuilder [SetOnRender (Some promptPanel)] (exampleFrame JUndefined)
          (JObj []) exampleRunning) = Inr frameBuilder
   \<and> map_sum id initPanelCalls
       (configChanged frameBuilder [SetOnRender (Some promptPanel)] (exampleFrame JUndefined)
          (JObj []) exampleRunning) = Inr 2
   \<and> map_sum id watchedFields
       (configChanged frameBuilder [SetOnRender (Some promptPanel)] (exampleFrame JUndefined)
          (JObj []) exampleRunning) = Inr {''currentFrame''}
   \<and> map_sum id watchedFields
       (configChanged frameBuilder [SetOnRender (Some promptPanel)] (exampleFrame JUndefined)
          (JObj []) exampleRunning) \<noteq> Inr {}
   \<and> watchedFields (mountAdapter (JObj []) frameBuilder exampleEnv) = {}"
proof -
  have c: "panelContainerRef exampleRunning"
    by (simp add: exampleRunning_more)
  have p: "panelId exampleRunning < uuidCounter exampleRunning"
    by (simp add: exampleRunning_more exampleRunning_fields)
  have e: "\<not> truthy (error exampleRunning)"
    by (simp add: exampleRunning_fields)
  from config_reset_reinitializes
         [OF c p e, of frameBuilder "exampleFrame JUndefined" "[SetOnRender (Some promptPanel)]"]
  obtain w1 where
    r: "configChanged frameBuilder [SetOnRender (Some promptPanel)] (exampleFrame JUndefined)
          (JObj []) exampleRunning
          = (case callAll [SetOnRender (Some promptPanel)] w1 of
               Inl e \<Rightarrow> Inl (Obj_Error e)
             | Inr w2 \<Rightarrow> Inr (w2\<lparr>mountedPanelId := Some (panelId w2)\<rparr>))"
    and f: "panelId w1 = uuidCounter exampleRunning" "buildRenderState w1 = frameBuilder"
      "initPanelCalls w1 = Suc (initPanelCalls exampleRunning)" "initialState w1 = JObj []"
      "watchedFields w1 = watchedFields exampleRunning"
    by blast
  have m: "watchedFields (mountAdapter (JObj []) frameBuilder exampleEnv) = {}"
    by (simp add: mountAdapter_def uuid_def)
  from r f m show ?thesis
    by (simp add: exampleRunning_more exampleRunning_fields)
qed

end
